theory Spec2Isabelle
  imports Complex_Main "HOL-Library.Word"
begin

section \<open>Values shared by the ingestion pipeline\<close>

type_synonym byte = "8 word"
type_synonym bytes = "byte list"

text \<open>
  Every error value the ingestion code can return.  \<open>fmt.Errorf\<close> with \<open>%w\<close> wraps an
  inner error; the wrapped value is kept as an argument of the constructor.
\<close>

datatype error =
    ContextDone                       \<comment> \<open>\<open>ctx.Err()\<close>, also what \<open>limiter.Wait\<close> returns\<close>
  | NewRequestFailed                  \<comment> \<open>\<open>http.NewRequestWithContext\<close> rejected method or URL\<close>
  | Transport nat                     \<comment> \<open>an error of \<open>http.Client.Do\<close> (tagged by the upstream script)\<close>
  | BodyRead nat                      \<comment> \<open>an error of the response body stream\<close>
  | Returned string nat               \<comment> \<open>\<open>"%s returned %d"\<close>\<close>
  | DownloadStatus nat                \<comment> \<open>\<open>"download %d"\<close>\<close>
  | AfterRetries nat "error option"   \<comment> \<open>\<open>"after %d retries: %w"\<close> around \<open>lastErr\<close>\<close>
  | RandPanic                         \<comment> \<open>\<open>rand.Int63n\<close> panics on a non-positive bound\<close>
  | JsonUnmarshal                     \<comment> \<open>\<open>json.Unmarshal\<close> failed\<close>
  | OptimizeDecode                    \<comment> \<open>\<open>"optimize: decode: %w"\<close>\<close>
  | OptimizeEncode                    \<comment> \<open>\<open>"optimize: encode webp: %w"\<close>\<close>
  | FloatToIntUnspecified             \<comment> \<open>a float64 to int conversion Go leaves implementation-defined\<close>
  | WriteImage                        \<comment> \<open>\<open>"write image: %w"\<close>\<close>
  | CatalogQuery                      \<comment> \<open>the error of the \<open>HasHash\<close> query\<close>
  | CatalogInsert                     \<comment> \<open>\<open>"catalog: insert: %w"\<close>\<close>

section \<open>The network environment\<close>

text \<open>
  One HTTP exchange as \<open>http.Client.Do\<close> delivers it: either a transport error, or a
  response with a status code, the bytes its body stream would deliver and, optionally,
  the error with which the stream ends instead of EOF.
\<close>

datatype http_result =
    DoError nat
  | Response nat bytes "nat option"

datatype limiter = WaifuImLimiter | WaifuPicsLimiter | DownloadLimiter

datatype event =
    TokenAcquired limiter             \<comment> \<open>\<open>limiter.Wait(ctx)\<close> returned nil\<close>
  | Slept int                         \<comment> \<open>\<open>time.After(backoff)\<close> fired, duration in nanoseconds\<close>
  | Sent string string "string option"
                                      \<comment> \<open>\<open>hc.Do(req)\<close> was called: method, URL, request body\<close>
  | RetryLogged string nat int        \<comment> \<open>\<open>"ingest: %s retry %d after %v"\<close>\<close>

text \<open>
  The environment is scripted: the \<open>k\<close>-th call of \<open>hc.Do\<close> gets \<open>upstream k\<close>, the
  \<open>k\<close>-th draw of the random generator is \<open>rand_src k\<close>, and the context is done from
  suspension point \<open>d\<close> on when \<open>ctx_deadline = Some d\<close> (a suspension point is a token
  wait or a backoff sleep).  The counters \<open>sent\<close>, \<open>draws\<close> and \<open>ticks\<close> say how much
  of each script has been consumed; \<open>trace\<close> records what the code did, in order.
\<close>

record net =
  upstream :: "nat \<Rightarrow> http_result"
  sent :: nat
  rand_src :: "nat \<Rightarrow> nat"
  draws :: nat
  ctx_deadline :: "nat option"
  ticks :: nat
  valid_request :: "string \<Rightarrow> string \<Rightarrow> bool"
  trace :: "event list"

definition ctx_done :: "net \<Rightarrow> bool" where
  "ctx_done n = (case ctx_deadline n of None \<Rightarrow> False | Some d \<Rightarrow> d \<le> ticks n)"

definition emit :: "event \<Rightarrow> net \<Rightarrow> net" where
  "emit e n = n\<lparr>trace := trace n @ [e]\<rparr>"

text \<open>\<open>limiter.Wait(ctx)\<close>: blocks until a token is granted, or fails when the context is done.\<close>

definition limiter_Wait :: "limiter \<Rightarrow> net \<Rightarrow> error option \<times> net" where
  "limiter_Wait l n =
     (if ctx_done n then (Some ContextDone, n\<lparr>ticks := Suc (ticks n)\<rparr>)
      else (None, emit (TokenAcquired l) (n\<lparr>ticks := Suc (ticks n)\<rparr>)))"

text \<open>\<open>select { case <-ctx.Done(): return ctx.Err(); case <-time.After(backoff): }\<close>\<close>

definition sleep_or_done :: "int \<Rightarrow> net \<Rightarrow> error option \<times> net" where
  "sleep_or_done d n =
     (if ctx_done n then (Some ContextDone, n\<lparr>ticks := Suc (ticks n)\<rparr>)
      else (None, emit (Slept d) (n\<lparr>ticks := Suc (ticks n)\<rparr>)))"

text \<open>\<open>ing.hc.Do(req)\<close>: the next exchange of the script.\<close>

definition hc_Do :: "string \<Rightarrow> string \<Rightarrow> string option \<Rightarrow> net \<Rightarrow> http_result \<times> net" where
  "hc_Do method url reqBody n =
     (upstream n (sent n), emit (Sent method url reqBody) (n\<lparr>sent := Suc (sent n)\<rparr>))"

text \<open>
  \<open>io.ReadAll(io.LimitReader(resp.Body, cap))\<close>.  The limited reader reports EOF once
  \<open>cap\<close> bytes have been delivered, so a longer body comes back cut to \<open>cap\<close> bytes with a
  nil error, and an error of the stream is only seen when it occurs before the cap.
\<close>

definition readAll_LimitReader :: "nat \<Rightarrow> bytes \<Rightarrow> nat option \<Rightarrow> bytes \<times> error option" where
  "readAll_LimitReader cap body stream_err =
     (if cap \<le> length body then (take cap body, None)
      else (body, map_option BodyRead stream_err))"

section \<open>Backoff\<close>

definition maxRetries :: nat where
  "maxRetries = 3"

text \<open>Go's \<open>int64\<close> (and so \<open>time.Duration\<close>): integers wrapped into \<open>[-2^63, 2^63)\<close>.\<close>

definition int64 :: "int \<Rightarrow> int" where
  "int64 x = (x + 2 ^ 63) mod 2 ^ 64 - 2 ^ 63"

text \<open>Go's integer division truncates towards zero.\<close>

definition go_quot :: "int \<Rightarrow> int \<Rightarrow> int" where
  "go_quot a b = sgn a * sgn b * (\<bar>a\<bar> div \<bar>b\<bar>)"

definition time_Second :: int where
  "time_Second = 1000000000"

text \<open>
  \<open>rand.Int63n(n)\<close> panics when \<open>n <= 0\<close> and otherwise returns a number in \<open>[0, n)\<close>;
  the raw draw \<open>r\<close> of the generator is reduced into that range.
\<close>

definition rand_Int63n :: "int \<Rightarrow> nat \<Rightarrow> int option" where
  "rand_Int63n n r = (if n \<le> 0 then None else Some (int r mod n))"

definition backoff_base :: "nat \<Rightarrow> int" where
  "backoff_base attempt = int64 (int64 (2 ^ attempt) * time_Second)"

definition backoffDuration :: "nat \<Rightarrow> nat \<Rightarrow> int option" where
  "backoffDuration attempt r =
     (let base = backoff_base attempt
      in case rand_Int63n (go_quot base 2) r of
           None \<Rightarrow> None
         | Some jitter \<Rightarrow> Some (int64 (base + jitter)))"

definition draw_backoff :: "nat \<Rightarrow> net \<Rightarrow> int option \<times> net" where
  "draw_backoff attempt n = (backoffDuration attempt (rand_src n (draws n)), n\<lparr>draws := Suc (draws n)\<rparr>)"

section \<open>The rate-limited fetcher\<close>

text \<open>What one pass through a retry loop's body does: leave the function, or \<open>continue\<close>.\<close>

datatype 'a step = Return "error + 'a" | Continue error

text \<open>
  The body of the loop of \<open>fetchWithRetry\<close> for one value of \<open>attempt\<close>: backoff sleep
  and token re-acquisition when \<open>attempt > 0\<close>, then the request, the capped read of the
  body and the classification of the status.
\<close>

definition fetchAttempt ::
  "string \<Rightarrow> string \<Rightarrow> string option \<Rightarrow> string \<Rightarrow> limiter \<Rightarrow> nat \<Rightarrow> net \<Rightarrow> bytes step \<times> net" where
  "fetchAttempt method url reqBody source lmt attempt n0 =
     (let (pre, n1) =
            (if 0 < attempt then
               (case draw_backoff attempt n0 of
                  (None, n) \<Rightarrow> (Some RandPanic, n)
                | (Some backoff, n) \<Rightarrow>
                    (case sleep_or_done backoff (emit (RetryLogged source attempt backoff) n) of
                       (Some e, n') \<Rightarrow> (Some e, n')
                     | (None, n') \<Rightarrow> limiter_Wait lmt n'))
             else (None, n0))
      in case pre of
           Some e \<Rightarrow> (Return (Inl e), n1)
         | None \<Rightarrow>
             if \<not> valid_request n1 method url then (Return (Inl NewRequestFailed), n1)
             else
               (case hc_Do method url reqBody n1 of
                  (DoError t, n2) \<Rightarrow> (Continue (Transport t), n2)
                | (Response status body stream_err, n2) \<Rightarrow>
                    (let (data, err) = readAll_LimitReader (2 ^ 20) body stream_err
                     in if status = 429 \<or> 500 \<le> status then (Continue (Returned source status), n2)
                        else if status \<noteq> 200 then (Return (Inl (Returned source status)), n2)
                        else (case err of
                                Some e \<Rightarrow> (Continue e, n2)
                              | None \<Rightarrow> (Return (Inr data), n2)))))"

function fetchLoop ::
  "string \<Rightarrow> string \<Rightarrow> string option \<Rightarrow> string \<Rightarrow> limiter \<Rightarrow> nat \<Rightarrow> error option \<Rightarrow> net
     \<Rightarrow> (error + bytes) \<times> net" where
  "fetchLoop method url reqBody source lmt attempt lastErr n =
     (if attempt < maxRetries then
        (case fetchAttempt method url reqBody source lmt attempt n of
           (Return r, n') \<Rightarrow> (r, n')
         | (Continue e, n') \<Rightarrow> fetchLoop method url reqBody source lmt (Suc attempt) (Some e) n')
      else (Inl (AfterRetries maxRetries lastErr), n))"
  by pat_completeness auto
termination
  by (relation "measure (\<lambda>(method, url, reqBody, source, lmt, attempt, lastErr, n). maxRetries - attempt)")
    auto

definition fetchWithRetry ::
  "string \<Rightarrow> string \<Rightarrow> string option \<Rightarrow> string \<Rightarrow> limiter \<Rightarrow> net \<Rightarrow> (error + bytes) \<times> net" where
  "fetchWithRetry method url reqBody source lmt n = fetchLoop method url reqBody source lmt 0 None n"

text \<open>
  The body of the loop of \<open>downloadImage\<close>: backoff sleep when \<open>attempt > 0\<close>, then
  the GET request; the body is read, under the 10MB cap, only for status 200.
\<close>

definition downloadAttempt :: "string \<Rightarrow> nat \<Rightarrow> net \<Rightarrow> bytes step \<times> net" where
  "downloadAttempt srcURL attempt n0 =
     (let (pre, n1) =
            (if 0 < attempt then
               (case draw_backoff attempt n0 of
                  (None, n) \<Rightarrow> (Some RandPanic, n)
                | (Some backoff, n) \<Rightarrow> sleep_or_done backoff n)
             else (None, n0))
      in case pre of
           Some e \<Rightarrow> (Return (Inl e), n1)
         | None \<Rightarrow>
             if \<not> valid_request n1 ''GET'' srcURL then (Return (Inl NewRequestFailed), n1)
             else
               (case hc_Do ''GET'' srcURL None n1 of
                  (DoError t, n2) \<Rightarrow> (Continue (Transport t), n2)
                | (Response status body stream_err, n2) \<Rightarrow>
                    if status = 429 \<or> 500 \<le> status then (Continue (DownloadStatus status), n2)
                    else if status \<noteq> 200 then (Return (Inl (DownloadStatus status)), n2)
                    else (case readAll_LimitReader (10 * 2 ^ 20) body stream_err of
                            (data, Some e) \<Rightarrow> (Continue e, n2)
                          | (data, None) \<Rightarrow> (Return (Inr data), n2))))"

function downloadLoop ::
  "string \<Rightarrow> nat \<Rightarrow> error option \<Rightarrow> net \<Rightarrow> (error + bytes) \<times> net" where
  "downloadLoop srcURL attempt lastErr n =
     (if attempt < maxRetries then
        (case downloadAttempt srcURL attempt n of
           (Return r, n') \<Rightarrow> (r, n')
         | (Continue e, n') \<Rightarrow> downloadLoop srcURL (Suc attempt) (Some e) n')
      else (Inl (AfterRetries maxRetries lastErr), n))"
  by pat_completeness auto
termination
  by (relation "measure (\<lambda>(srcURL, attempt, lastErr, n). maxRetries - attempt)") auto

definition downloadImage :: "string \<Rightarrow> net \<Rightarrow> (error + bytes) \<times> net" where
  "downloadImage srcURL n = downloadLoop srcURL 0 None n"

section \<open>Library functions the pipeline calls\<close>

text \<open>A decoded \<open>image.Image\<close>: the extent of its bounds and its pixel content.\<close>

record go_image =
  bounds_Dx :: int
  bounds_Dy :: int
  pixels :: bytes

text \<open>
  The functions of other packages that the pipeline calls are parameters of the model:
  the SHA-256 digest, the image decoders, the Catmull-Rom scaler (drawing into a fresh
  RGBA image of the given size), the WebP encoder, and \<open>json.Unmarshal\<close> at the two
  response types (a missing width or height is left 0 by \<open>json.Unmarshal\<close>).
\<close>

record libs =
  sha256_Sum256 :: "bytes \<Rightarrow> bytes"
  image_Decode :: "bytes \<Rightarrow> (go_image \<times> string) option"
  webp_Decode :: "bytes \<Rightarrow> go_image option"
  png_Decode :: "bytes \<Rightarrow> go_image option"
  jpeg_Decode :: "bytes \<Rightarrow> go_image option"
  gif_Decode :: "bytes \<Rightarrow> go_image option"
  catmullRom_Scale :: "go_image \<Rightarrow> int \<Rightarrow> int \<Rightarrow> go_image"
  webp_Encode :: "go_image \<Rightarrow> bytes option"
  unmarshal_waifuIm :: "bytes \<Rightarrow> (string \<times> int \<times> int) list option"
  unmarshal_waifuPics :: "bytes \<Rightarrow> string list option"

subsection \<open>Content hash\<close>

definition hextable :: string where
  "hextable = ''0123456789abcdef''"

definition hex_EncodeToString :: "bytes \<Rightarrow> string" where
  "hex_EncodeToString bs =
     concat (map (\<lambda>b. [hextable ! (unat b div 16), hextable ! (unat b mod 16)]) bs)"

definition contentHash :: "libs \<Rightarrow> bytes \<Rightarrow> string" where
  "contentHash L data = hex_EncodeToString (take 16 (sha256_Sum256 L data))"

section \<open>float64 arithmetic\<close>

text \<open>
  A finite float64 is a rational \<open>m * 2^e\<close> with \<open>|m| < 2^53\<close>.  Every operation rounds
  its exact result to the nearest such value, ties to the even significand.  The
  exponent range is left unbounded: the operands below come from 64-bit integers, whose
  quotients and products stay far from overflow and underflow.
\<close>

text \<open>The number of binary digits of a positive integer.\<close>

function bitlen :: "int \<Rightarrow> int" where
  "bitlen a = (if a \<le> 0 then 0 else 1 + bitlen (a div 2))"
  by pat_completeness auto
termination
  by (relation "measure nat") auto

declare bitlen.simps [simp del]

definition round_half_even :: "rat \<Rightarrow> int" where
  "round_half_even x =
     (let f = \<lfloor>x\<rfloor>; d = x - of_int f
      in if d < 1 / 2 then f
         else if 1 / 2 < d then f + 1
         else if even f then f else f + 1)"

text \<open>The exponent \<open>e\<close> with \<open>2^52 \<le> x / 2^e < 2^53\<close>, for \<open>x > 0\<close>.\<close>

definition float64_exponent :: "rat \<Rightarrow> int" where
  "float64_exponent x =
     (let (a, b) = quotient_of x;
          e0 = bitlen a - bitlen b - 53
      in if x / power_int 2 e0 < 2 ^ 53 then e0 else e0 + 1)"

definition float64_round :: "rat \<Rightarrow> rat" where
  "float64_round x =
     (if x = 0 then 0
      else let e = float64_exponent \<bar>x\<bar>
           in sgn x * of_int (round_half_even (\<bar>x\<bar> / power_int 2 e)) * power_int 2 e)"

definition float64_of_int :: "int \<Rightarrow> rat" where
  "float64_of_int i = float64_round (of_int i)"

definition float64_div :: "rat \<Rightarrow> rat \<Rightarrow> rat" where
  "float64_div x y = float64_round (x / y)"

definition float64_mul :: "rat \<Rightarrow> rat \<Rightarrow> rat" where
  "float64_mul x y = float64_round (x * y)"

text \<open>
  \<open>int(f)\<close> discards the fraction (truncation towards zero); Go leaves the result
  implementation-defined when the value does not fit the integer type.
\<close>

definition int_of_float64 :: "rat \<Rightarrow> int option" where
  "int_of_float64 x =
     (let t = (if 0 \<le> x then \<lfloor>x\<rfloor> else - \<lfloor>- x\<rfloor>)
      in if - (2 ^ 63) \<le> t \<and> t < 2 ^ 63 then Some t else None)"

section \<open>The transformer\<close>

text \<open>\<open>decodeImage\<close> tries the registered formats, then WebP, PNG, JPEG and GIF.\<close>

definition decodeImage :: "libs \<Rightarrow> bytes \<Rightarrow> (go_image \<times> string) option" where
  "decodeImage L data =
     (case image_Decode L data of
        Some (img, format) \<Rightarrow> Some (img, format)
      | None \<Rightarrow>
          (case webp_Decode L data of
             Some img \<Rightarrow> Some (img, ''webp'')
           | None \<Rightarrow>
               (case png_Decode L data of
                  Some img \<Rightarrow> Some (img, ''png'')
                | None \<Rightarrow>
                    (case jpeg_Decode L data of
                       Some img \<Rightarrow> Some (img, ''jpeg'')
                     | None \<Rightarrow>
                         (case gif_Decode L data of
                            Some img \<Rightarrow> Some (img, ''gif'')
                          | None \<Rightarrow> None)))))"

text \<open>
  The target size.  With \<open>origW > maxWidth\<close> the height is
  \<open>int(float64(origH) * (float64(maxWidth) / float64(origW)))\<close>; the result is \<open>None\<close>
  where Go does not define it (division by a zero width, a product outside \<open>int\<close>).
\<close>

definition scaled_height :: "int \<Rightarrow> int \<Rightarrow> int \<Rightarrow> int option" where
  "scaled_height origW origH maxWidth =
     (if origW = 0 then None
      else let ratio = float64_div (float64_of_int maxWidth) (float64_of_int origW)
           in int_of_float64 (float64_mul (float64_of_int origH) ratio))"

definition target_size :: "int \<Rightarrow> int \<Rightarrow> int \<Rightarrow> (int \<times> int) option" where
  "target_size origW origH maxWidth =
     (if maxWidth < origW then map_option (\<lambda>newH. (maxWidth, newH)) (scaled_height origW origH maxWidth)
      else Some (origW, origH))"

definition ForTerminal :: "libs \<Rightarrow> bytes \<Rightarrow> int \<Rightarrow> error + (bytes \<times> int \<times> int)" where
  "ForTerminal L data maxWidth =
     (case decodeImage L data of
        None \<Rightarrow> Inl OptimizeDecode
      | Some (img, format) \<Rightarrow>
          (case target_size (bounds_Dx img) (bounds_Dy img) maxWidth of
             None \<Rightarrow> Inl FloatToIntUnspecified
           | Some (newW, newH) \<Rightarrow>
               (case webp_Encode L (catmullRom_Scale L img newW newH) of
                  None \<Rightarrow> Inl OptimizeEncode
                | Some buf \<Rightarrow> Inr (buf, newW, newH))))"

section \<open>The catalog and the image directory\<close>

text \<open>A row of table \<open>images\<close> (\<open>created_at\<close> is filled in by SQLite and not modelled).\<close>

record Image =
  ID :: int
  Hash :: string
  Source :: string
  SourceURL :: string
  Category :: string
  Width :: int
  Height :: int
  Format :: string
  SizeBytes :: int
  Filename :: string

text \<open>
  The store: the files of the image directory by name, the rows of the catalog in
  insertion order and the last row id handed out.  Faults are scripted like the network:
  the \<open>k\<close>-th SQL statement fails when \<open>db_fault k\<close>, the \<open>k\<close>-th operation on the image
  directory (a file write or a removal) fails when \<open>disk_fault k\<close>.  What a failed write
  leaves behind is scripted too: \<open>disk_residue k = None\<close> when the file could not be
  opened, and \<open>Some j\<close> when it was created or truncated and the write stopped after
  \<open>j\<close> bytes (or the close failed).
\<close>

record store =
  files :: "string \<rightharpoonup> bytes"
  rows :: "Image list"
  last_id :: int
  db_fault :: "nat \<Rightarrow> bool"
  db_ops :: nat
  disk_fault :: "nat \<Rightarrow> bool"
  disk_residue :: "nat \<Rightarrow> nat option"
  disk_ops :: nat

definition db_exec :: "store \<Rightarrow> bool \<times> store" where
  "db_exec s = (db_fault s (db_ops s), s\<lparr>db_ops := Suc (db_ops s)\<rparr>)"

text \<open>\<open>SELECT COUNT(*) FROM images WHERE hash = ?\<close>, then \<open>count > 0\<close>.\<close>

definition HasHash :: "string \<Rightarrow> store \<Rightarrow> (error + bool) \<times> store" where
  "HasHash h s =
     (case db_exec s of
        (True, s') \<Rightarrow> (Inl CatalogQuery, s')
      | (False, s') \<Rightarrow> (Inr (0 < length (filter (\<lambda>r. Hash r = h) (rows s'))), s'))"

text \<open>
  \<open>INSERT OR IGNORE\<close>: column \<open>hash\<close> is \<open>UNIQUE\<close>, so a row whose hash is present is
  ignored without an error; otherwise the row is appended under the next id.
\<close>

definition Insert :: "Image \<Rightarrow> store \<Rightarrow> (error + int) \<times> store" where
  "Insert img s =
     (case db_exec s of
        (True, s') \<Rightarrow> (Inl CatalogInsert, s')
      | (False, s') \<Rightarrow>
          if \<exists>r \<in> set (rows s'). Hash r = Hash img then (Inr (last_id s'), s')
          else (Inr (last_id s' + 1),
                s'\<lparr>rows := rows s' @ [img\<lparr>ID := last_id s' + 1\<rparr>], last_id := last_id s' + 1\<rparr>))"

text \<open>
  \<open>os.WriteFile\<close> opens the file with \<open>O_WRONLY|O_CREATE|O_TRUNC\<close>, writes and closes.
  When it fails after the open, the file exists with the bytes written so far.
\<close>

definition os_WriteFile :: "string \<Rightarrow> bytes \<Rightarrow> store \<Rightarrow> error option \<times> store" where
  "os_WriteFile name data s =
     (if disk_fault s (disk_ops s) then
        (Some WriteImage,
         s\<lparr>disk_ops := Suc (disk_ops s),
           files := (case disk_residue s (disk_ops s) of
                       None \<Rightarrow> files s
                     | Some j \<Rightarrow> (files s)(name \<mapsto> take j data))\<rparr>)
      else (None, s\<lparr>disk_ops := Suc (disk_ops s), files := (files s)(name \<mapsto> data)\<rparr>))"

text \<open>
  \<open>os.Remove(path)\<close> as \<open>processImage\<close> calls it, its error discarded: a removal that
  fails leaves the file.
\<close>

definition os_Remove :: "string \<Rightarrow> store \<Rightarrow> store" where
  "os_Remove name s =
     (if disk_fault s (disk_ops s) then s\<lparr>disk_ops := Suc (disk_ops s)\<rparr>
      else s\<lparr>disk_ops := Suc (disk_ops s), files := (files s)(name := None)\<rparr>)"

section \<open>The ingest orchestrator\<close>

datatype log_entry =
    AdapterFailed string error        \<comment> \<open>\<open>"ingest: waifu.im sfw: %v"\<close> and its three siblings\<close>
  | ProcessFailed string error        \<comment> \<open>\<open>"ingest: process %s: %v"\<close>\<close>

record world =
  wnet :: net
  wstore :: store
  wlog :: "log_entry list"

definition log_Printf :: "log_entry \<Rightarrow> world \<Rightarrow> world" where
  "log_Printf l w = w\<lparr>wlog := wlog w @ [l]\<rparr>"

text \<open>
  \<open>processImage\<close> from the content hash on: duplicate check, transformation with the
  fallback to the original bytes, file write, catalog insert with removal of the file
  when the insert fails.
\<close>

definition storeImage ::
  "libs \<Rightarrow> string \<Rightarrow> string \<Rightarrow> string \<Rightarrow> int \<Rightarrow> int \<Rightarrow> bytes \<Rightarrow> store \<Rightarrow> (nat \<times> error option) \<times> store" where
  "storeImage L srcURL source category origW origH data s0 =
     (let hash = contentHash L data
      in case HasHash hash s0 of
           (Inl e, s1) \<Rightarrow> ((0, Some e), s1)
         | (Inr exists, s1) \<Rightarrow>
             if exists then ((0, None), s1)
             else
               (let (optimized, w, h) =
                      (case ForTerminal L data 480 of
                         Inl e \<Rightarrow> (data, origW, origH)
                       | Inr r \<Rightarrow> r);
                    filename = hash @ ''.webp''
                in case os_WriteFile filename optimized s1 of
                     (Some e, s2) \<Rightarrow> ((0, Some e), s2)
                   | (None, s2) \<Rightarrow>
                       (let img = \<lparr>ID = 0, Hash = hash, Source = source, SourceURL = srcURL,
                                   Category = category, Width = w, Height = h, Format = ''webp'',
                                   SizeBytes = int (length optimized), Filename = filename\<rparr>
                        in case Insert img s2 of
                             (Inl e, s3) \<Rightarrow> ((0, Some e), os_Remove filename s3)
                           | (Inr i, s3) \<Rightarrow> ((1, None), s3))))"

definition processImage ::
  "libs \<Rightarrow> string \<Rightarrow> string \<Rightarrow> string \<Rightarrow> int \<Rightarrow> int \<Rightarrow> world \<Rightarrow> (nat \<times> error option) \<times> world" where
  "processImage L srcURL source category origW origH w =
     (case limiter_Wait DownloadLimiter (wnet w) of
        (Some e, n1) \<Rightarrow> ((0, Some e), w\<lparr>wnet := n1\<rparr>)
      | (None, n1) \<Rightarrow>
          (case downloadImage srcURL n1 of
             (Inl e, n2) \<Rightarrow> ((0, Some e), w\<lparr>wnet := n2\<rparr>)
           | (Inr data, n2) \<Rightarrow>
               (case storeImage L srcURL source category origW origH data (wstore w) of
                  (r, s') \<Rightarrow> (r, w\<lparr>wnet := n2, wstore := s'\<rparr>))))"

text \<open>
  The loop over the candidates of one adapter: a failed candidate is logged and skipped,
  the others add their result to \<open>count\<close>.
\<close>

fun processAll ::
  "libs \<Rightarrow> string \<Rightarrow> string \<Rightarrow> (string \<times> int \<times> int) list \<Rightarrow> nat \<Rightarrow> world \<Rightarrow> nat \<times> world" where
  "processAll L source category [] count w = (count, w)"
| "processAll L source category ((url, width, height) # items) count w =
     (case processImage L url source category width height w of
        ((n, Some e), w') \<Rightarrow> processAll L source category items count (log_Printf (ProcessFailed url e) w')
      | ((n, None), w') \<Rightarrow> processAll L source category items (count + n) w')"

definition waifuImSearchURL :: string where
  "waifuImSearchURL = ''https://api.waifu.im/images''"

definition waifuPicsManyURL :: string where
  "waifuPicsManyURL = ''https://api.waifu.pics/many/sfw/waifu''"

definition waifuPicsNSFWURL :: string where
  "waifuPicsNSFWURL = ''https://api.waifu.pics/many/nsfw/waifu''"

definition ingestWaifuIm :: "libs \<Rightarrow> string \<Rightarrow> world \<Rightarrow> (nat \<times> error option) \<times> world" where
  "ingestWaifuIm L category w =
     (let isNSFW = (if category = ''nsfw'' then ''true'' else ''false'')
      in case limiter_Wait WaifuImLimiter (wnet w) of
           (Some e, n1) \<Rightarrow> ((0, Some e), w\<lparr>wnet := n1\<rparr>)
         | (None, n1) \<Rightarrow>
             (let url = waifuImSearchURL @ ''?included_tags=waifu&is_nsfw='' @ isNSFW @ ''&page_size=30''
              in case fetchWithRetry ''GET'' url None ''waifu.im'' WaifuImLimiter n1 of
                   (Inl e, n2) \<Rightarrow> ((0, Some e), w\<lparr>wnet := n2\<rparr>)
                 | (Inr body, n2) \<Rightarrow>
                     (case unmarshal_waifuIm L body of
                        None \<Rightarrow> ((0, Some JsonUnmarshal), w\<lparr>wnet := n2\<rparr>)
                      | Some items \<Rightarrow>
                          (case processAll L ''waifu.im'' category items 0 (w\<lparr>wnet := n2\<rparr>) of
                             (count, w') \<Rightarrow> ((count, None), w')))))"

text \<open>The request body \<^verbatim>\<open>{"exclude":[]}\<close> (\<open>CHR 0x22\<close> is the double quote).\<close>

definition waifuPicsReqBody :: string where
  "waifuPicsReqBody = ''{'' @ [CHR 0x22] @ ''exclude'' @ [CHR 0x22] @ '':[]}''"

definition ingestWaifuPics :: "libs \<Rightarrow> string \<Rightarrow> string \<Rightarrow> world \<Rightarrow> (nat \<times> error option) \<times> world" where
  "ingestWaifuPics L apiURL category w =
     (case limiter_Wait WaifuPicsLimiter (wnet w) of
        (Some e, n1) \<Rightarrow> ((0, Some e), w\<lparr>wnet := n1\<rparr>)
      | (None, n1) \<Rightarrow>
          (case fetchWithRetry ''POST'' apiURL (Some waifuPicsReqBody) ''waifu.pics'' WaifuPicsLimiter n1 of
             (Inl e, n2) \<Rightarrow> ((0, Some e), w\<lparr>wnet := n2\<rparr>)
           | (Inr body, n2) \<Rightarrow>
               (case unmarshal_waifuPics L body of
                  None \<Rightarrow> ((0, Some JsonUnmarshal), w\<lparr>wnet := n2\<rparr>)
                | Some urls \<Rightarrow>
                    (case processAll L ''waifu.pics'' category (map (\<lambda>url. (url, 0, 0)) urls) 0
                            (w\<lparr>wnet := n2\<rparr>) of
                       (count, w') \<Rightarrow> ((count, None), w')))))"

text \<open>\<open>if err != nil { log.Printf("ingest: <pair>: %v", err) }\<close>\<close>

definition log_failure :: "string \<Rightarrow> error option \<Rightarrow> world \<Rightarrow> world" where
  "log_failure pair err w = (case err of None \<Rightarrow> w | Some e \<Rightarrow> log_Printf (AdapterFailed pair e) w)"

definition Run :: "libs \<Rightarrow> world \<Rightarrow> (nat \<times> error option) \<times> world" where
  "Run L w0 =
     (case ingestWaifuIm L ''sfw'' w0 of
        ((n1, err1), w1) \<Rightarrow>
          (case ingestWaifuIm L ''nsfw'' (log_failure ''waifu.im sfw'' err1 w1) of
             ((n2, err2), w2) \<Rightarrow>
               (case ingestWaifuPics L waifuPicsManyURL ''sfw'' (log_failure ''waifu.im nsfw'' err2 w2) of
                  ((n3, err3), w3) \<Rightarrow>
                    (case ingestWaifuPics L waifuPicsNSFWURL ''nsfw'' (log_failure ''waifu.pics sfw'' err3 w3) of
                       ((n4, err4), w4) \<Rightarrow>
                         ((0 + n1 + n2 + n3 + n4, None), log_failure ''waifu.pics nsfw'' err4 w4)))))"

section \<open>Vocabulary of the statements\<close>

text \<open>
  The outcomes of an exchange that the retry loops treat as transient: a transport
  failure, status 429, and every status from 500 on.
\<close>

fun transient :: "http_result \<Rightarrow> bool" where
  "transient (DoError t) = True"
| "transient (Response status body stream_err) = (status = 429 \<or> 500 \<le> status)"

text \<open>The error \<open>fetchWithRetry\<close> keeps in \<open>lastErr\<close> for a transient outcome.\<close>

fun fetch_cause :: "string \<Rightarrow> http_result \<Rightarrow> error" where
  "fetch_cause source (DoError t) = Transport t"
| "fetch_cause source (Response status body stream_err) = Returned source status"

text \<open>The content hashes present in the catalog.\<close>

definition hashes :: "store \<Rightarrow> string set" where
  "hashes s = Hash ` set (rows s)"

text \<open>
  What \<open>processImage\<close> stores for downloaded bytes: the transformer's output and size, or
  the original bytes with the adapter's size when the transformer fails.
\<close>

definition stored_form :: "libs \<Rightarrow> bytes \<Rightarrow> int \<Rightarrow> int \<Rightarrow> bytes \<times> int \<times> int" where
  "stored_form L data origW origH =
     (case ForTerminal L data 480 of Inl e \<Rightarrow> (data, origW, origH) | Inr r \<Rightarrow> r)"

text \<open>The first two steps of \<open>processImage\<close>: a token of the download limiter, then the download.\<close>

definition acquire_and_download :: "string \<Rightarrow> net \<Rightarrow> (error + bytes) \<times> net" where
  "acquire_and_download url n =
     (case limiter_Wait DownloadLimiter n of
        (Some e, n1) \<Rightarrow> (Inl e, n1)
      | (None, n1) \<Rightarrow> downloadImage url n1)"

text \<open>
  The network side of an adapter's loop: the bytes of the candidates whose download
  succeeds, in order, and the network environment after the last candidate.
\<close>

fun payloads :: "(string \<times> int \<times> int) list \<Rightarrow> net \<Rightarrow> bytes list \<times> net" where
  "payloads [] n = ([], n)"
| "payloads ((url, width, height) # items) n =
     (case acquire_and_download url n of
        (Inl e, n') \<Rightarrow> payloads items n'
      | (Inr data, n') \<Rightarrow> (case payloads items n' of (ds, n'') \<Rightarrow> (data # ds, n'')))"

text \<open>The URL that \<open>ingestWaifuIm\<close> builds for a category.\<close>

definition waifuImURL :: "string \<Rightarrow> string" where
  "waifuImURL category =
     waifuImSearchURL @ ''?included_tags=waifu&is_nsfw=''
       @ (if category = ''nsfw'' then ''true'' else ''false'') @ ''&page_size=30''"

text \<open>The network side of the two adapters up to the parsed list of candidates.\<close>

definition listing_im :: "libs \<Rightarrow> string \<Rightarrow> net \<Rightarrow> (error + (string \<times> int \<times> int) list) \<times> net" where
  "listing_im L category n =
     (case limiter_Wait WaifuImLimiter n of
        (Some e, n1) \<Rightarrow> (Inl e, n1)
      | (None, n1) \<Rightarrow>
          (case fetchWithRetry ''GET'' (waifuImURL category) None ''waifu.im'' WaifuImLimiter n1 of
             (Inl e, n2) \<Rightarrow> (Inl e, n2)
           | (Inr body, n2) \<Rightarrow>
               (case unmarshal_waifuIm L body of
                  None \<Rightarrow> (Inl JsonUnmarshal, n2)
                | Some items \<Rightarrow> (Inr items, n2))))"

definition listing_pics :: "libs \<Rightarrow> string \<Rightarrow> net \<Rightarrow> (error + (string \<times> int \<times> int) list) \<times> net" where
  "listing_pics L apiURL n =
     (case limiter_Wait WaifuPicsLimiter n of
        (Some e, n1) \<Rightarrow> (Inl e, n1)
      | (None, n1) \<Rightarrow>
          (case fetchWithRetry ''POST'' apiURL (Some waifuPicsReqBody) ''waifu.pics'' WaifuPicsLimiter n1 of
             (Inl e, n2) \<Rightarrow> (Inl e, n2)
           | (Inr body, n2) \<Rightarrow>
               (case unmarshal_waifuPics L body of
                  None \<Rightarrow> (Inl JsonUnmarshal, n2)
                | Some urls \<Rightarrow> (Inr (map (\<lambda>url. (url, 0, 0)) urls), n2))))"

text \<open>An adapter, given the outcome of its listing: the shape both adapters share.\<close>

definition ingest_via ::
  "libs \<Rightarrow> string \<Rightarrow> string \<Rightarrow> (error + (string \<times> int \<times> int) list) \<times> net \<Rightarrow> world
     \<Rightarrow> (nat \<times> error option) \<times> world" where
  "ingest_via L source category listing w =
     (case listing of
        (Inl e, n') \<Rightarrow> ((0, Some e), w\<lparr>wnet := n'\<rparr>)
      | (Inr items, n') \<Rightarrow>
          (case processAll L source category items 0 (w\<lparr>wnet := n'\<rparr>) of
             (count, w') \<Rightarrow> ((count, None), w')))"

text \<open>The payloads and the final network environment of an adapter, from its listing.\<close>

definition via_payloads :: "(error + (string \<times> int \<times> int) list) \<times> net \<Rightarrow> bytes list" where
  "via_payloads listing =
     (case listing of (Inl e, n') \<Rightarrow> [] | (Inr items, n') \<Rightarrow> fst (payloads items n'))"

definition via_net :: "(error + (string \<times> int \<times> int) list) \<times> net \<Rightarrow> net" where
  "via_net listing =
     (case listing of (Inl e, n') \<Rightarrow> n' | (Inr items, n') \<Rightarrow> snd (payloads items n'))"

text \<open>
  The network environments in which the four adapters of a cycle start, and the bytes a
  whole cycle downloads.
\<close>

definition net_after_1 :: "libs \<Rightarrow> net \<Rightarrow> net" where
  "net_after_1 L n = via_net (listing_im L ''sfw'' n)"

definition net_after_2 :: "libs \<Rightarrow> net \<Rightarrow> net" where
  "net_after_2 L n = via_net (listing_im L ''nsfw'' (net_after_1 L n))"

definition net_after_3 :: "libs \<Rightarrow> net \<Rightarrow> net" where
  "net_after_3 L n = via_net (listing_pics L waifuPicsManyURL (net_after_2 L n))"

definition net_after_4 :: "libs \<Rightarrow> net \<Rightarrow> net" where
  "net_after_4 L n = via_net (listing_pics L waifuPicsNSFWURL (net_after_3 L n))"

definition cycle_payloads :: "libs \<Rightarrow> net \<Rightarrow> bytes list" where
  "cycle_payloads L n =
     via_payloads (listing_im L ''sfw'' n)
     @ via_payloads (listing_im L ''nsfw'' (net_after_1 L n))
     @ via_payloads (listing_pics L waifuPicsManyURL (net_after_2 L n))
     @ via_payloads (listing_pics L waifuPicsNSFWURL (net_after_3 L n))"

text \<open>
  The worlds in which the second, third and fourth adapter of a cycle start: what the
  adapter before left, with its failure logged.
\<close>

definition world_after_1 :: "libs \<Rightarrow> world \<Rightarrow> world" where
  "world_after_1 L w =
     log_failure ''waifu.im sfw'' (snd (fst (ingestWaifuIm L ''sfw'' w)))
       (snd (ingestWaifuIm L ''sfw'' w))"

definition world_after_2 :: "libs \<Rightarrow> world \<Rightarrow> world" where
  "world_after_2 L w =
     log_failure ''waifu.im nsfw'' (snd (fst (ingestWaifuIm L ''nsfw'' (world_after_1 L w))))
       (snd (ingestWaifuIm L ''nsfw'' (world_after_1 L w)))"

definition world_after_3 :: "libs \<Rightarrow> world \<Rightarrow> world" where
  "world_after_3 L w =
     log_failure ''waifu.pics sfw''
       (snd (fst (ingestWaifuPics L waifuPicsManyURL ''sfw'' (world_after_2 L w))))
       (snd (ingestWaifuPics L waifuPicsManyURL ''sfw'' (world_after_2 L w)))"

definition world_after_4 :: "libs \<Rightarrow> world \<Rightarrow> world" where
  "world_after_4 L w =
     log_failure ''waifu.pics nsfw''
       (snd (fst (ingestWaifuPics L waifuPicsNSFWURL ''nsfw'' (world_after_3 L w))))
       (snd (ingestWaifuPics L waifuPicsNSFWURL ''nsfw'' (world_after_3 L w)))"

text \<open>
  A later network environment of the same run: the scripts are the same and everything
  traced so far is still in the trace.
\<close>

definition extends :: "net \<Rightarrow> net \<Rightarrow> bool" where
  "extends n n' =
     (upstream n' = upstream n \<and> rand_src n' = rand_src n \<and> ctx_deadline n' = ctx_deadline n
      \<and> valid_request n' = valid_request n \<and> set (trace n) \<subseteq> set (trace n'))"

text \<open>No catalog statement and no file write of the store fails.\<close>

definition no_faults :: "store \<Rightarrow> bool" where
  "no_faults s = ((\<forall>k. \<not> db_fault s k) \<and> (\<forall>k. \<not> disk_fault s k))"

text \<open>Two stores with the same files and the same catalog.\<close>

definition same_content :: "store \<Rightarrow> store \<Rightarrow> bool" where
  "same_content s s' = (files s' = files s \<and> rows s' = rows s \<and> last_id s' = last_id s)"

text \<open>Every file of the image directory is the \<open>Filename\<close> of a catalog row.\<close>

definition blobs_catalogued :: "store \<Rightarrow> bool" where
  "blobs_catalogued s = (\<forall>f \<in> dom (files s). \<exists>r \<in> set (rows s). Filename r = f)"

section \<open>Concrete environments\<close>

text \<open>
  Small closed instances of the parameters, on which the theorems below are exercised:
  an upstream that answers every request alike, a network without cancellation, toy
  library functions, an empty store.
\<close>

definition always :: "http_result \<Rightarrow> nat \<Rightarrow> http_result" where
  "always r k = r"

definition quiet_net :: "(nat \<Rightarrow> http_result) \<Rightarrow> net" where
  "quiet_net up =
     \<lparr>upstream = up, sent = 0, rand_src = (\<lambda>k. 7 * k), draws = 0, ctx_deadline = None,
      ticks = 0, valid_request = (\<lambda>m u. True), trace = []\<rparr>"

definition oversized_api_body :: bytes where
  "oversized_api_body = replicate (2 ^ 20 + 1) 0"

definition oversized_image_body :: bytes where
  "oversized_image_body = replicate (10 * 2 ^ 20 + 1) 1"

definition oversized_net :: net where
  "oversized_net = quiet_net (always (Response 200 oversized_image_body None))"

definition failing_net :: net where
  "failing_net = quiet_net (always (Response 500 [] None))"

definition notfound_net :: net where
  "notfound_net = quiet_net (always (Response 404 [] None))"

text \<open>An upstream whose first answer is status 500 and whose later answers are status 200.\<close>

definition flaky_upstream :: "nat \<Rightarrow> http_result" where
  "flaky_upstream k = (if k = 0 then Response 500 [] None else Response 200 [3, 232, 3, 34] None)"

text \<open>
  Toy library functions: the digest is the identity, an image file is four bytes of
  big-endian width and height followed by its pixels, scaling keeps the pixels, encoding
  returns them, and a listing names one candidate per byte of the response.
\<close>

definition toy_decode :: "bytes \<Rightarrow> go_image option" where
  "toy_decode d =
     (case d of
        w1 # w0 # h1 # h0 # rest \<Rightarrow>
          Some \<lparr>bounds_Dx = 256 * uint w1 + uint w0, bounds_Dy = 256 * uint h1 + uint h0,
                pixels = rest\<rparr>
      | _ \<Rightarrow> None)"

definition toy_libs :: libs where
  "toy_libs =
     \<lparr>sha256_Sum256 = (\<lambda>d. d),
      image_Decode = (\<lambda>d. map_option (\<lambda>i. (i, ''png'')) (toy_decode d)),
      webp_Decode = (\<lambda>d. None),
      png_Decode = (\<lambda>d. None),
      jpeg_Decode = (\<lambda>d. None),
      gif_Decode = (\<lambda>d. None),
      catmullRom_Scale = (\<lambda>img w h. \<lparr>bounds_Dx = w, bounds_Dy = h, pixels = pixels img\<rparr>),
      webp_Encode = (\<lambda>img. Some (pixels img)),
      unmarshal_waifuIm = (\<lambda>b. Some (map (\<lambda>x. ([char_of (unat x)], 0, 0)) b)),
      unmarshal_waifuPics = (\<lambda>b. Some (map (\<lambda>x. [char_of (unat x)]) b))\<rparr>"

definition empty_store :: store where
  "empty_store =
     \<lparr>files = Map.empty, rows = [], last_id = 0, db_fault = (\<lambda>k. False), db_ops = 0,
      disk_fault = (\<lambda>k. False), disk_residue = (\<lambda>k. None), disk_ops = 0\<rparr>"

definition fresh_world :: "(nat \<Rightarrow> http_result) \<Rightarrow> world" where
  "fresh_world up = \<lparr>wnet = quiet_net up, wstore = empty_store, wlog = []\<rparr>"

text \<open>A world whose every download is the one byte 9, which the toy decoder rejects.\<close>

definition fallback_world :: world where
  "fallback_world = fresh_world (always (Response 200 [9] None))"

text \<open>
  The same downloads, over an image directory in which every write fails after the file
  has been created, with no byte written.
\<close>

definition write_fault_world :: world where
  "write_fault_world =
     \<lparr>wnet = quiet_net (always (Response 200 [9] None)),
      wstore = empty_store\<lparr>disk_fault := (\<lambda>k. True), disk_residue := (\<lambda>k. Some 0)\<rparr>,
      wlog = []\<rparr>"

text \<open>The same downloads, over a catalog whose second statement (the insert) fails.\<close>

definition insert_fault_world :: world where
  "insert_fault_world =
     \<lparr>wnet = quiet_net (always (Response 200 [9] None)),
      wstore = empty_store\<lparr>db_fault := (\<lambda>k. k = 1)\<rparr>, wlog = []\<rparr>"

text \<open>The fallback world after the byte 9 has been stored once, the network as at the start.\<close>

definition seen_row :: Image where
  "seen_row =
     \<lparr>ID = 1, Hash = ''09'', Source = ''waifu.pics'', SourceURL = ''u'', Category = ''sfw'',
      Width = 0, Height = 0, Format = ''webp'', SizeBytes = 1, Filename = ''09.webp''\<rparr>"

definition seen_world :: world where
  "seen_world =
     \<lparr>wnet = wnet fallback_world,
      wstore = empty_store\<lparr>db_ops := 2, disk_ops := 1, files := [''09.webp'' \<mapsto> [9]],
                 rows := [seen_row], last_id := 1\<rparr>,
      wlog = []\<rparr>"

text \<open>A second cycle: the store that a first cycle left, the network as at its start.\<close>

definition rerun_world :: world where
  "rerun_world = (snd (Run toy_libs fallback_world))\<lparr>wnet := wnet fallback_world\<rparr>"

definition failing_world :: world where
  "failing_world = \<lparr>wnet = failing_net, wstore = empty_store, wlog = []\<rparr>"

declare fetchLoop.simps [simp del] downloadLoop.simps [simp del]

section \<open>The retry loops, one pass at a time\<close>

lemma fetchLoop_Return:
  "attempt < maxRetries \<Longrightarrow> fetchAttempt m u rb s l attempt n = (Return r, n')
   \<Longrightarrow> fetchLoop m u rb s l attempt le n = (r, n')"
  by (subst fetchLoop.simps) simp

lemma fetchLoop_Continue:
  "attempt < maxRetries \<Longrightarrow> fetchAttempt m u rb s l attempt n = (Continue e, n')
   \<Longrightarrow> fetchLoop m u rb s l attempt le n = fetchLoop m u rb s l (Suc attempt) (Some e) n'"
  by (subst fetchLoop.simps) simp

lemma fetchLoop_exhausted:
  "\<not> attempt < maxRetries
   \<Longrightarrow> fetchLoop m u rb s l attempt le n = (Inl (AfterRetries maxRetries le), n)"
  by (subst fetchLoop.simps) simp

lemma downloadLoop_Return:
  "attempt < maxRetries \<Longrightarrow> downloadAttempt u attempt n = (Return r, n')
   \<Longrightarrow> downloadLoop u attempt le n = (r, n')"
  by (subst downloadLoop.simps) simp

lemma downloadLoop_Continue:
  "attempt < maxRetries \<Longrightarrow> downloadAttempt u attempt n = (Continue e, n')
   \<Longrightarrow> downloadLoop u attempt le n = downloadLoop u (Suc attempt) (Some e) n'"
  by (subst downloadLoop.simps) simp

lemma downloadLoop_exhausted:
  "\<not> attempt < maxRetries
   \<Longrightarrow> downloadLoop u attempt le n = (Inl (AfterRetries maxRetries le), n)"
  by (subst downloadLoop.simps) simp

subsection \<open>The capped read\<close>

lemma fetchAttempt_first_ok:
  "valid_request n m u \<Longrightarrow> upstream n (sent n) = Response 200 body serr \<Longrightarrow> 2 ^ 20 \<le> length body
   \<Longrightarrow> fetchAttempt m u rb s l 0 n =
       (Return (Inr (take (2 ^ 20) body)), emit (Sent m u rb) (n\<lparr>sent := Suc (sent n)\<rparr>))"
  by (simp add: fetchAttempt_def hc_Do_def readAll_LimitReader_def emit_def)

lemma downloadAttempt_first_ok:
  "valid_request n ''GET'' u \<Longrightarrow> upstream n (sent n) = Response 200 body serr
   \<Longrightarrow> 10 * 2 ^ 20 \<le> length body
   \<Longrightarrow> downloadAttempt u 0 n =
       (Return (Inr (take (10 * 2 ^ 20) body)), emit (Sent ''GET'' u None) (n\<lparr>sent := Suc (sent n)\<rparr>))"
  by (simp add: downloadAttempt_def hc_Do_def readAll_LimitReader_def emit_def)

lemma readAll_LimitReader_length:
  "readAll_LimitReader cap body serr = (data, None) \<Longrightarrow> length data \<le> cap"
  by (auto simp: readAll_LimitReader_def split: if_splits)

lemma fetchAttempt_length:
  "fetchAttempt m u rb s l attempt n = (Return (Inr data), n') \<Longrightarrow> length data \<le> 2 ^ 20"
  by (auto simp: fetchAttempt_def Let_def hc_Do_def
      split: if_splits prod.splits option.splits http_result.splits
      dest: readAll_LimitReader_length)

lemma downloadAttempt_length:
  "downloadAttempt u attempt n = (Return (Inr data), n') \<Longrightarrow> length data \<le> 10 * 2 ^ 20"
  by (auto simp: downloadAttempt_def Let_def hc_Do_def
      split: if_splits prod.splits option.splits http_result.splits
      dest: readAll_LimitReader_length)

lemma fetchLoop_length:
  "fetchLoop m u rb s l attempt le n = (Inr data, n') \<Longrightarrow> length data \<le> 2 ^ 20"
proof (induction m u rb s l attempt le n rule: fetchLoop.induct)
  case (1 m u rb s l attempt le n)
  show ?case
  proof (cases "attempt < maxRetries")
    case False
    with "1.prems" show ?thesis by (simp add: fetchLoop_exhausted)
  next
    case True
    obtain st n1 where a: "fetchAttempt m u rb s l attempt n = (st, n1)"
      by (cases "fetchAttempt m u rb s l attempt n")
    show ?thesis
    proof (cases st)
      case (Return r)
      with True a "1.prems" have "r = Inr data" by (simp add: fetchLoop_Return)
      with a Return show ?thesis by (auto dest: fetchAttempt_length)
    next
      case (Continue e)
      with True a "1.prems" have "fetchLoop m u rb s l (Suc attempt) (Some e) n1 = (Inr data, n')"
        by (simp add: fetchLoop_Continue)
      with "1.IH" True a Continue show ?thesis by simp
    qed
  qed
qed

lemma downloadLoop_length:
  "downloadLoop u attempt le n = (Inr data, n') \<Longrightarrow> length data \<le> 10 * 2 ^ 20"
proof (induction u attempt le n rule: downloadLoop.induct)
  case (1 u attempt le n)
  show ?case
  proof (cases "attempt < maxRetries")
    case False
    with "1.prems" show ?thesis by (simp add: downloadLoop_exhausted)
  next
    case True
    obtain st n1 where a: "downloadAttempt u attempt n = (st, n1)"
      by (cases "downloadAttempt u attempt n")
    show ?thesis
    proof (cases st)
      case (Return r)
      with True a "1.prems" have "r = Inr data" by (simp add: downloadLoop_Return)
      with a Return show ?thesis by (auto dest: downloadAttempt_length)
    next
      case (Continue e)
      with True a "1.prems" have "downloadLoop u (Suc attempt) (Some e) n1 = (Inr data, n')"
        by (simp add: downloadLoop_Continue)
      with "1.IH" True a Continue show ?thesis by simp
    qed
  qed
qed

text \<open>
  C1 (as stated, refuted).  The claim says that a body longer than the cap makes the read
  fail.  Here the API path is given a body of \<open>2^20 + 1\<close> bytes and the image path one of
  \<open>10 * 2^20 + 1\<close> bytes, both with status 200: each read succeeds and returns exactly
  the first cap bytes.
\<close>

theorem C1_oversized_body_is_truncated_success:
  "2 ^ 20 < length oversized_api_body \<and>
   fst (fetchWithRetry ''GET'' ''u'' None ''waifu.im'' WaifuImLimiter
          (quiet_net (always (Response 200 oversized_api_body None))))
     = Inr (take (2 ^ 20) oversized_api_body) \<and>
   length (take (2 ^ 20) oversized_api_body) = 2 ^ 20 \<and>
   10 * 2 ^ 20 < length oversized_image_body \<and>
   fst (downloadImage ''u'' (quiet_net (always (Response 200 oversized_image_body None))))
     = Inr (take (10 * 2 ^ 20) oversized_image_body) \<and>
   length (take (10 * 2 ^ 20) oversized_image_body) = 10 * 2 ^ 20"
  by (simp add: fetchWithRetry_def downloadImage_def
      fetchLoop_Return [OF _ fetchAttempt_first_ok]
      downloadLoop_Return [OF _ downloadAttempt_first_ok]
      maxRetries_def quiet_net_def always_def oversized_api_body_def oversized_image_body_def)

text \<open>
  C1 (amended).  Response bodies are read under a hard byte cap, \<open>2^20\<close> bytes on the API
  path and \<open>10 * 2^20\<close> bytes on the image path: whatever a fetch returns as a success is
  never longer than the cap, and a status-200 body that reaches or exceeds the cap comes
  back cut to its first cap bytes, as a success and without an error.
\<close>

theorem C1_capped_read:
  "(fetchWithRetry m u rb s l n = (Inr d1, n1) \<longrightarrow> length d1 \<le> 2 ^ 20) \<and>
   (downloadImage u n = (Inr d2, n2) \<longrightarrow> length d2 \<le> 10 * 2 ^ 20) \<and>
   (valid_request n m u \<and> upstream n (sent n) = Response 200 body serr \<and> 2 ^ 20 \<le> length body
      \<longrightarrow> fst (fetchWithRetry m u rb s l n) = Inr (take (2 ^ 20) body)) \<and>
   (valid_request n ''GET'' u \<and> upstream n (sent n) = Response 200 body serr
      \<and> 10 * 2 ^ 20 \<le> length body
      \<longrightarrow> fst (downloadImage u n) = Inr (take (10 * 2 ^ 20) body))"
  by (auto simp: fetchWithRetry_def downloadImage_def maxRetries_def
      fetchLoop_Return [OF _ fetchAttempt_first_ok]
      downloadLoop_Return [OF _ downloadAttempt_first_ok]
      dest: fetchLoop_length downloadLoop_length)

theorem C1_capped_read_witness:
  "fetchWithRetry ''GET'' ''u'' None ''waifu.im'' WaifuImLimiter oversized_net
     = (Inr (take (2 ^ 20) oversized_image_body),
        oversized_net\<lparr>sent := 1, trace := [Sent ''GET'' ''u'' None]\<rparr>) \<and>
   length (take (2 ^ 20) oversized_image_body) \<le> 2 ^ 20 \<and>
   downloadImage ''u'' oversized_net
     = (Inr (take (10 * 2 ^ 20) oversized_image_body),
        oversized_net\<lparr>sent := 1, trace := [Sent ''GET'' ''u'' None]\<rparr>) \<and>
   length (take (10 * 2 ^ 20) oversized_image_body) \<le> 10 * 2 ^ 20 \<and>
   valid_request oversized_net ''GET'' ''u'' \<and>
   upstream oversized_net (sent oversized_net) = Response 200 oversized_image_body None \<and>
   10 * 2 ^ 20 \<le> length oversized_image_body \<and> 2 ^ 20 \<le> length oversized_image_body \<and>
   fst (fetchWithRetry ''GET'' ''u'' None ''waifu.im'' WaifuImLimiter oversized_net)
     = Inr (take (2 ^ 20) oversized_image_body) \<and>
   fst (downloadImage ''u'' oversized_net) = Inr (take (10 * 2 ^ 20) oversized_image_body)"
proof -
  have v: "valid_request oversized_net ''GET'' ''u''"
    and r: "upstream oversized_net (sent oversized_net) = Response 200 oversized_image_body None"
    and b: "2 ^ 20 \<le> length oversized_image_body" "10 * 2 ^ 20 \<le> length oversized_image_body"
    by (simp_all add: oversized_net_def quiet_net_def always_def oversized_image_body_def)
  have f: "fetchWithRetry ''GET'' ''u'' None ''waifu.im'' WaifuImLimiter oversized_net
     = (Inr (take (2 ^ 20) oversized_image_body),
        oversized_net\<lparr>sent := 1, trace := [Sent ''GET'' ''u'' None]\<rparr>)"
    by (simp add: fetchWithRetry_def maxRetries_def
        fetchLoop_Return [OF _ fetchAttempt_first_ok [OF v r b(1)]] emit_def)
       (simp add: oversized_net_def quiet_net_def)
  have d: "downloadImage ''u'' oversized_net
     = (Inr (take (10 * 2 ^ 20) oversized_image_body),
        oversized_net\<lparr>sent := 1, trace := [Sent ''GET'' ''u'' None]\<rparr>)"
    by (simp add: downloadImage_def maxRetries_def
        downloadLoop_Return [OF _ downloadAttempt_first_ok [OF v r b(2)]] emit_def)
       (simp add: oversized_net_def quiet_net_def)
  show ?thesis
    using C1_capped_read [of "''GET''" "''u''" None "''waifu.im''" WaifuImLimiter oversized_net
        "take (2 ^ 20) oversized_image_body"
        "oversized_net\<lparr>sent := 1, trace := [Sent ''GET'' ''u'' None]\<rparr>"
        "take (10 * 2 ^ 20) oversized_image_body"
        "oversized_net\<lparr>sent := 1, trace := [Sent ''GET'' ''u'' None]\<rparr>"
        oversized_image_body None] v r b f d
    by simp
qed

subsection \<open>Backoff durations\<close>

lemma int64_id: "- (2 ^ 63) \<le> x \<Longrightarrow> x < 2 ^ 63 \<Longrightarrow> int64 x = x"
  by (simp add: int64_def)

lemma backoff_base_1: "backoff_base (Suc 0) = 2000000000"
  by (simp add: backoff_base_def int64_def time_Second_def)

lemma backoff_base_2: "backoff_base (Suc (Suc 0)) = 4000000000"
  by (simp add: backoff_base_def int64_def time_Second_def)

lemma backoffDuration_1: "backoffDuration (Suc 0) r = Some (2000000000 + int r mod 1000000000)"
proof -
  have "0 \<le> int r mod 1000000000" "int r mod 1000000000 < 1000000000" by simp_all
  then have "int64 (2000000000 + int r mod 1000000000) = 2000000000 + int r mod 1000000000"
    by (intro int64_id; simp; linarith)
  then show ?thesis
    by (simp add: backoffDuration_def backoff_base_1 go_quot_def rand_Int63n_def)
qed

lemma backoffDuration_2: "backoffDuration (Suc (Suc 0)) r = Some (4000000000 + int r mod 2000000000)"
proof -
  have "0 \<le> int r mod 2000000000" "int r mod 2000000000 < 2000000000" by simp_all
  then have "int64 (4000000000 + int r mod 2000000000) = 4000000000 + int r mod 2000000000"
    by (intro int64_id; simp; linarith)
  then show ?thesis
    by (simp add: backoffDuration_def backoff_base_2 go_quot_def rand_Int63n_def)
qed

lemma backoffDuration_Some:
  assumes "0 < attempt" "attempt < maxRetries"
  shows "\<exists>d. backoffDuration attempt r = Some d"
proof -
  from assms have "attempt = Suc 0 \<or> attempt = Suc (Suc 0)" by (auto simp: maxRetries_def)
  then show ?thesis using backoffDuration_1 backoffDuration_2 by auto
qed

subsection \<open>One pass of \<open>fetchWithRetry\<close> on a transient outcome\<close>

lemma ctx_done_None [simp]: "ctx_deadline n = None \<Longrightarrow> \<not> ctx_done n"
  by (simp add: ctx_done_def)

lemma fetchAttempt_transient:
  assumes "ctx_deadline n = None" "valid_request n m u" "attempt < maxRetries"
    and "transient (upstream n (sent n))"
  shows "\<exists>n'. fetchAttempt m u rb s l attempt n = (Continue (fetch_cause s (upstream n (sent n))), n')
           \<and> sent n' = Suc (sent n) \<and> upstream n' = upstream n \<and> ctx_deadline n' = None
           \<and> valid_request n' = valid_request n"
proof (cases "attempt = 0")
  case True
  with assms show ?thesis
    by (cases "upstream n (sent n)")
       (auto simp: fetchAttempt_def hc_Do_def emit_def Let_def split: prod.splits)
next
  case False
  with assms(3) obtain d where d: "backoffDuration attempt (rand_src n (draws n)) = Some d"
    using backoffDuration_Some [of attempt] by auto
  with False assms show ?thesis
    by (cases "upstream n (sent n)")
       (auto simp: fetchAttempt_def draw_backoff_def sleep_or_done_def limiter_Wait_def
          ctx_done_def hc_Do_def emit_def Let_def split: prod.splits)
qed

lemma fetchAttempt_terminal:
  assumes "valid_request n m u" "upstream n (sent n) = Response status body serr"
    and "status \<noteq> 200" "status \<noteq> 429" "status < 500"
  shows "\<exists>n'. fetchAttempt m u rb s l 0 n = (Return (Inl (Returned s status)), n')
           \<and> sent n' = Suc (sent n)"
  using assms
  by (auto simp: fetchAttempt_def hc_Do_def emit_def Let_def split: prod.splits)

lemma fetchWithRetry_all_transient:
  assumes a: "ctx_deadline n = None \<and> valid_request n m u
      \<and> (\<forall>k < 3. transient (upstream n (sent n + k)))"
  shows "fst (fetchWithRetry m u rb s l n)
          = Inl (AfterRetries 3 (Some (fetch_cause s (upstream n (sent n + 2)))))"
    and "sent (snd (fetchWithRetry m u rb s l n)) = sent n + 3"
proof -
  from a have t0: "transient (upstream n (sent n))" and t1: "transient (upstream n (Suc (sent n)))"
    and t2: "transient (upstream n (Suc (Suc (sent n))))"
    using a [THEN conjunct2, THEN conjunct2, THEN spec, of 0]
      a [THEN conjunct2, THEN conjunct2, THEN spec, of 1]
      a [THEN conjunct2, THEN conjunct2, THEN spec, of 2]
    by simp_all
  from a t0 obtain n1 where
    s1: "fetchAttempt m u rb s l 0 n = (Continue (fetch_cause s (upstream n (sent n))), n1)"
    and f1: "sent n1 = Suc (sent n)" "upstream n1 = upstream n" "ctx_deadline n1 = None"
      "valid_request n1 = valid_request n"
    using fetchAttempt_transient [of n m u 0 rb s l] by (auto simp: maxRetries_def)
  from a t1 f1 obtain n2 where
    s2: "fetchAttempt m u rb s l (Suc 0) n1 = (Continue (fetch_cause s (upstream n (Suc (sent n)))), n2)"
    and f2: "sent n2 = Suc (Suc (sent n))" "upstream n2 = upstream n" "ctx_deadline n2 = None"
      "valid_request n2 = valid_request n"
    using fetchAttempt_transient [of n1 m u "Suc 0" rb s l] by (auto simp: maxRetries_def)
  from a t2 f2 obtain n3 where
    s3: "fetchAttempt m u rb s l (Suc (Suc 0)) n2
           = (Continue (fetch_cause s (upstream n (Suc (Suc (sent n))))), n3)"
    and f3: "sent n3 = Suc (Suc (Suc (sent n)))"
    using fetchAttempt_transient [of n2 m u "Suc (Suc 0)" rb s l] by (auto simp: maxRetries_def)
  have "fetchLoop m u rb s l (Suc (Suc (Suc 0))) (Some (fetch_cause s (upstream n (Suc (Suc (sent n)))))) n3
          = (Inl (AfterRetries 3 (Some (fetch_cause s (upstream n (Suc (Suc (sent n))))))), n3)"
    by (simp add: fetchLoop_exhausted maxRetries_def)
  then have "fetchLoop m u rb s l (Suc (Suc 0)) (Some (fetch_cause s (upstream n (Suc (sent n))))) n2
          = (Inl (AfterRetries 3 (Some (fetch_cause s (upstream n (Suc (Suc (sent n))))))), n3)"
    using fetchLoop_Continue [OF _ s3] by (simp add: maxRetries_def)
  then have "fetchLoop m u rb s l (Suc 0) (Some (fetch_cause s (upstream n (sent n)))) n1
          = (Inl (AfterRetries 3 (Some (fetch_cause s (upstream n (Suc (Suc (sent n))))))), n3)"
    using fetchLoop_Continue [OF _ s2] by (simp add: maxRetries_def)
  then have "fetchLoop m u rb s l 0 None n
          = (Inl (AfterRetries 3 (Some (fetch_cause s (upstream n (Suc (Suc (sent n))))))), n3)"
    using fetchLoop_Continue [OF _ s1] by (simp add: maxRetries_def)
  then have "fetchWithRetry m u rb s l n
          = (Inl (AfterRetries 3 (Some (fetch_cause s (upstream n (Suc (Suc (sent n))))))), n3)"
    by (simp add: fetchWithRetry_def)
  with f3 show "fst (fetchWithRetry m u rb s l n)
          = Inl (AfterRetries 3 (Some (fetch_cause s (upstream n (sent n + 2)))))"
    and "sent (snd (fetchWithRetry m u rb s l n)) = sent n + 3"
    by simp_all
qed

lemma fetchWithRetry_terminal:
  assumes a: "valid_request n' m u \<and> upstream n' (sent n') = Response status body serr
      \<and> status \<noteq> 200 \<and> status \<noteq> 429 \<and> status < 500"
  shows "fst (fetchWithRetry m u rb s l n') = Inl (Returned s status)"
    and "sent (snd (fetchWithRetry m u rb s l n')) = sent n' + 1"
proof -
  from a obtain n1 where s1: "fetchAttempt m u rb s l 0 n' = (Return (Inl (Returned s status)), n1)"
    and f1: "sent n1 = Suc (sent n')"
    using fetchAttempt_terminal [of n' m u status body serr rb s l] by auto
  then have "fetchWithRetry m u rb s l n' = (Inl (Returned s status), n1)"
    by (simp add: fetchWithRetry_def fetchLoop_Return maxRetries_def)
  with f1 show "fst (fetchWithRetry m u rb s l n') = Inl (Returned s status)"
    and "sent (snd (fetchWithRetry m u rb s l n')) = sent n' + 1"
    by simp_all
qed

text \<open>
  C2.  A request that the context does not cancel and whose three exchanges all end
  transiently (transport failure, status 429 or a status from 500 on) is sent exactly three
  times and ends in the single error \<open>after 3 retries: <cause of the last exchange>\<close>.  A
  request whose first response has a status other than 200 and 429 and below 500 is sent
  exactly once and ends in the error of that status, without a retry.
\<close>

theorem C2_retry_bound:
  "(ctx_deadline n = None \<and> valid_request n m u
      \<and> (\<forall>k < 3. transient (upstream n (sent n + k)))
    \<longrightarrow> fst (fetchWithRetry m u rb s l n)
          = Inl (AfterRetries 3 (Some (fetch_cause s (upstream n (sent n + 2)))))
        \<and> sent (snd (fetchWithRetry m u rb s l n)) = sent n + 3) \<and>
   (valid_request n' m u \<and> upstream n' (sent n') = Response status body serr
      \<and> status \<noteq> 200 \<and> status \<noteq> 429 \<and> status < 500
    \<longrightarrow> fst (fetchWithRetry m u rb s l n') = Inl (Returned s status)
        \<and> sent (snd (fetchWithRetry m u rb s l n')) = sent n' + 1)"
  using fetchWithRetry_all_transient [of n m u rb s l] fetchWithRetry_terminal [of n' m u status body serr rb s l]
  by blast

theorem C2_retry_bound_witness:
  "ctx_deadline failing_net = None \<and> valid_request failing_net ''GET'' ''u'' \<and>
   transient (upstream failing_net (sent failing_net + 0)) \<and>
   transient (upstream failing_net (sent failing_net + 1)) \<and>
   transient (upstream failing_net (sent failing_net + 2)) \<and>
   fst (fetchWithRetry ''GET'' ''u'' None ''waifu.im'' WaifuImLimiter failing_net)
     = Inl (AfterRetries 3 (Some (Returned ''waifu.im'' 500))) \<and>
   sent (snd (fetchWithRetry ''GET'' ''u'' None ''waifu.im'' WaifuImLimiter failing_net)) = 3 \<and>
   valid_request notfound_net ''GET'' ''u'' \<and>
   upstream notfound_net (sent notfound_net) = Response 404 [] None \<and>
   (404::nat) \<noteq> 200 \<and> (404::nat) \<noteq> 429 \<and> (404::nat) < 500 \<and>
   fst (fetchWithRetry ''GET'' ''u'' None ''waifu.im'' WaifuImLimiter notfound_net)
     = Inl (Returned ''waifu.im'' 404) \<and>
   sent (snd (fetchWithRetry ''GET'' ''u'' None ''waifu.im'' WaifuImLimiter notfound_net)) = 1"
proof -
  have a: "ctx_deadline failing_net = None" "valid_request failing_net ''GET'' ''u''"
    "sent failing_net = 0" "\<And>k. upstream failing_net k = Response 500 [] None"
    by (simp_all add: failing_net_def quiet_net_def always_def)
  have b: "valid_request notfound_net ''GET'' ''u''" "sent notfound_net = 0"
    "upstream notfound_net (sent notfound_net) = Response 404 [] None"
    by (simp_all add: notfound_net_def quiet_net_def always_def)
  show ?thesis
    using C2_retry_bound [of failing_net "''GET''" "''u''" None "''waifu.im''" WaifuImLimiter
        notfound_net 404 "[]" None] a b
    by simp
qed

subsection \<open>Evaluating the network code on the concrete environments\<close>

lemmas net_eval =
  quiet_net_def always_def flaky_upstream_def failing_net_def
  downloadImage_def downloadLoop.simps downloadAttempt_def
  fetchWithRetry_def fetchLoop.simps fetchAttempt_def
  maxRetries_def hc_Do_def emit_def readAll_LimitReader_def draw_backoff_def
  sleep_or_done_def limiter_Wait_def ctx_done_def
  backoffDuration_def backoff_base_def int64_def time_Second_def go_quot_def rand_Int63n_def

text \<open>
  C3 (the code at the first retry).  The retry loops call \<open>backoffDuration(attempt)\<close>
  only with \<open>attempt = 1\<close> and \<open>attempt = 2\<close>.  Whatever the random draw, the delay before
  the first retry is 2 seconds plus a jitter below 1 second, and before the second retry
  4 seconds plus a jitter below 2 seconds: the sequence starts at 2 seconds, not at the
  1 second of the claim and of the comment \<open>// 1s, 2s, 4s\<close> in \<open>backoffDuration\<close>.  On an
  upstream that always answers 500, \<open>fetchWithRetry\<close> sleeps 2000000000 ns (jitter 0) and
  then 4000000007 ns (jitter 7).
\<close>

theorem C3_first_retry_waits_two_seconds:
  "backoffDuration 1 r = Some (2 * time_Second + int r mod time_Second) \<and>
   backoffDuration 2 r = Some (4 * time_Second + int r mod (2 * time_Second)) \<and>
   trace (snd (fetchWithRetry ''GET'' ''u'' None ''waifu.im'' WaifuImLimiter failing_net)) =
     [Sent ''GET'' ''u'' None,
      RetryLogged ''waifu.im'' 1 2000000000, Slept 2000000000,
      TokenAcquired WaifuImLimiter, Sent ''GET'' ''u'' None,
      RetryLogged ''waifu.im'' 2 4000000007, Slept 4000000007,
      TokenAcquired WaifuImLimiter, Sent ''GET'' ''u'' None]"
proof -
  have "backoffDuration 1 r = Some (2 * time_Second + int r mod time_Second)"
    using backoffDuration_1 [of r] by (simp add: time_Second_def)
  moreover have "backoffDuration 2 r = Some (4 * time_Second + int r mod (2 * time_Second))"
    using backoffDuration_2 [of r] by (simp add: time_Second_def numeral_2_eq_2)
  moreover have "trace (snd (fetchWithRetry ''GET'' ''u'' None ''waifu.im'' WaifuImLimiter failing_net)) =
     [Sent ''GET'' ''u'' None,
      RetryLogged ''waifu.im'' 1 2000000000, Slept 2000000000,
      TokenAcquired WaifuImLimiter, Sent ''GET'' ''u'' None,
      RetryLogged ''waifu.im'' 2 4000000007, Slept 4000000007,
      TokenAcquired WaifuImLimiter, Sent ''GET'' ''u'' None]"
    by (simp add: net_eval)
  ultimately show ?thesis by simp
qed

text \<open>
  C9 (the code on the download path).  A candidate whose first download answers 500 and
  whose second answers 200: \<open>processImage\<close> takes one token of the download limiter, and
  \<open>downloadImage\<close> sends the request, sleeps and sends it again.  The second request goes
  out without a second token.
\<close>

theorem C9_download_retry_sends_without_token:
  "trace (snd (downloadImage ''u'' (quiet_net flaky_upstream))) =
     [Sent ''GET'' ''u'' None, Slept 2000000000, Sent ''GET'' ''u'' None] \<and>
   fst (downloadImage ''u'' (quiet_net flaky_upstream)) = Inr [3, 232, 3, 34] \<and>
   trace (wnet (snd (processImage toy_libs ''u'' ''waifu.pics'' ''sfw'' 0 0 (fresh_world flaky_upstream)))) =
     [TokenAcquired DownloadLimiter, Sent ''GET'' ''u'' None, Slept 2000000000,
      Sent ''GET'' ''u'' None]"
proof -
  have d: "downloadImage ''u'' (emit (TokenAcquired DownloadLimiter) (quiet_net flaky_upstream\<lparr>ticks := Suc 0\<rparr>))
        = (Inr [3, 232, 3, 34],
           quiet_net flaky_upstream\<lparr>sent := 2, draws := 1, ticks := 2,
             trace := [TokenAcquired DownloadLimiter, Sent ''GET'' ''u'' None, Slept 2000000000,
                       Sent ''GET'' ''u'' None]\<rparr>)"
    by (simp add: net_eval)
  have w: "limiter_Wait DownloadLimiter (wnet (fresh_world flaky_upstream))
        = (None, emit (TokenAcquired DownloadLimiter) (quiet_net flaky_upstream\<lparr>ticks := Suc 0\<rparr>))"
    by (simp add: fresh_world_def limiter_Wait_def ctx_done_def quiet_net_def)
  have "trace (wnet (snd (processImage toy_libs ''u'' ''waifu.pics'' ''sfw'' 0 0 (fresh_world flaky_upstream)))) =
     [TokenAcquired DownloadLimiter, Sent ''GET'' ''u'' None, Slept 2000000000,
      Sent ''GET'' ''u'' None]"
    by (simp add: processImage_def w d split: prod.splits)
  moreover have "trace (snd (downloadImage ''u'' (quiet_net flaky_upstream))) =
     [Sent ''GET'' ''u'' None, Slept 2000000000, Sent ''GET'' ''u'' None]"
    and "fst (downloadImage ''u'' (quiet_net flaky_upstream)) = Inr [3, 232, 3, 34]"
    by (simp_all add: net_eval)
  ultimately show ?thesis by simp
qed

section \<open>Storing one image\<close>

lemma HasHash_eq:
  "HasHash h s =
     (if db_fault s (db_ops s) then (Inl CatalogQuery, s\<lparr>db_ops := Suc (db_ops s)\<rparr>)
      else (Inr (h \<in> hashes s), s\<lparr>db_ops := Suc (db_ops s)\<rparr>))"
  by (auto simp: HasHash_def db_exec_def hashes_def filter_empty_conv)

lemma hash_present: "(\<exists>r \<in> set xs. Hash r = h) \<longleftrightarrow> h \<in> Hash ` set xs"
  by blast

lemma Insert_eq:
  "Insert img s =
     (if db_fault s (db_ops s) then (Inl CatalogInsert, s\<lparr>db_ops := Suc (db_ops s)\<rparr>)
      else if Hash img \<in> hashes s then (Inr (last_id s), s\<lparr>db_ops := Suc (db_ops s)\<rparr>)
      else (Inr (last_id s + 1),
            s\<lparr>db_ops := Suc (db_ops s), rows := rows s @ [img\<lparr>ID := last_id s + 1\<rparr>],
              last_id := last_id s + 1\<rparr>))"
  by (simp add: Insert_def db_exec_def hashes_def hash_present)

lemma hashes_frame [simp]:
  "hashes (s\<lparr>db_ops := a\<rparr>) = hashes s"
  "hashes (s\<lparr>disk_ops := b\<rparr>) = hashes s"
  "hashes (s\<lparr>files := c\<rparr>) = hashes s"
  "hashes (s\<lparr>last_id := d\<rparr>) = hashes s"
  "hashes (s\<lparr>db_fault := e\<rparr>) = hashes s"
  "hashes (s\<lparr>disk_fault := f\<rparr>) = hashes s"
  by (simp_all add: hashes_def)

text \<open>The five ways through \<open>processImage\<close> once the bytes are downloaded.\<close>

lemma storeImage_query_fault:
  "db_fault s (db_ops s)
   \<Longrightarrow> storeImage L url src cat ow oh data s = ((0, Some CatalogQuery), s\<lparr>db_ops := Suc (db_ops s)\<rparr>)"
  by (simp add: storeImage_def HasHash_eq)

lemma storeImage_known:
  "\<not> db_fault s (db_ops s) \<Longrightarrow> contentHash L data \<in> hashes s
   \<Longrightarrow> storeImage L url src cat ow oh data s = ((0, None), s\<lparr>db_ops := Suc (db_ops s)\<rparr>)"
  by (simp add: storeImage_def HasHash_eq)

lemma storeImage_write_fault:
  "\<not> db_fault s (db_ops s) \<Longrightarrow> contentHash L data \<notin> hashes s \<Longrightarrow> disk_fault s (disk_ops s)
   \<Longrightarrow> storeImage L url src cat ow oh data s
       = ((0, Some WriteImage),
          s\<lparr>db_ops := Suc (db_ops s), disk_ops := Suc (disk_ops s),
            files := (case disk_residue s (disk_ops s) of
                        None \<Rightarrow> files s
                      | Some j \<Rightarrow> (files s)(contentHash L data @ ''.webp''
                                    \<mapsto> take j (fst (stored_form L data ow oh))))\<rparr>)"
  by (cases "disk_residue s (disk_ops s)")
     (simp_all add: storeImage_def HasHash_eq os_WriteFile_def stored_form_def Let_def
        split: prod.splits sum.splits)

lemma storeImage_insert_fault:
  "\<not> db_fault s (db_ops s) \<Longrightarrow> contentHash L data \<notin> hashes s \<Longrightarrow> \<not> disk_fault s (disk_ops s)
   \<Longrightarrow> db_fault s (Suc (db_ops s))
   \<Longrightarrow> storeImage L url src cat ow oh data s
       = ((0, Some CatalogInsert),
          s\<lparr>db_ops := Suc (Suc (db_ops s)), disk_ops := Suc (Suc (disk_ops s)),
            files := (if disk_fault s (Suc (disk_ops s))
                      then (files s)(contentHash L data @ ''.webp'' \<mapsto> fst (stored_form L data ow oh))
                      else (files s)(contentHash L data @ ''.webp'' := None))\<rparr>)"
  by (simp add: storeImage_def HasHash_eq os_WriteFile_def Insert_eq os_Remove_def stored_form_def
      Let_def split: prod.splits sum.splits)

lemma storeImage_stored:
  "\<not> db_fault s (db_ops s) \<Longrightarrow> contentHash L data \<notin> hashes s \<Longrightarrow> \<not> disk_fault s (disk_ops s)
   \<Longrightarrow> \<not> db_fault s (Suc (db_ops s))
   \<Longrightarrow> storeImage L url src cat ow oh data s
       = ((1, None),
          s\<lparr>db_ops := Suc (Suc (db_ops s)), disk_ops := Suc (disk_ops s),
            files := (files s)(contentHash L data @ ''.webp'' \<mapsto> fst (stored_form L data ow oh)),
            rows := rows s @
              [\<lparr>ID = last_id s + 1, Hash = contentHash L data, Source = src, SourceURL = url,
                Category = cat, Width = fst (snd (stored_form L data ow oh)),
                Height = snd (snd (stored_form L data ow oh)), Format = ''webp'',
                SizeBytes = int (length (fst (stored_form L data ow oh))),
                Filename = contentHash L data @ ''.webp''\<rparr>],
            last_id := last_id s + 1\<rparr>)"
  by (simp add: storeImage_def HasHash_eq os_WriteFile_def Insert_eq stored_form_def Let_def
      split: prod.splits sum.splits)

lemma storeImage_one:
  assumes "storeImage L url src cat ow oh data s = ((Suc 0, None), s')"
  shows "\<not> db_fault s (db_ops s) \<and> contentHash L data \<notin> hashes s
         \<and> \<not> disk_fault s (disk_ops s) \<and> \<not> db_fault s (Suc (db_ops s))"
proof -
  have 1: "\<not> db_fault s (db_ops s)"
    using assms storeImage_query_fault [of s L url src cat ow oh data] by auto
  have 2: "contentHash L data \<notin> hashes s"
    using assms 1 storeImage_known [of s L data url src cat ow oh] by auto
  have 3: "\<not> disk_fault s (disk_ops s)"
    using assms 1 2 storeImage_write_fault [of s L data url src cat ow oh] by auto
  have 4: "\<not> db_fault s (Suc (db_ops s))"
    using assms 1 2 3 storeImage_insert_fault [of s L data url src cat ow oh] by auto
  from 1 2 3 4 show ?thesis by simp
qed

lemma processImage_eq:
  "processImage L url src cat ow oh w =
     (case acquire_and_download url (wnet w) of
        (Inl e, n') \<Rightarrow> ((0, Some e), w\<lparr>wnet := n'\<rparr>)
      | (Inr data, n') \<Rightarrow>
          (case storeImage L url src cat ow oh data (wstore w) of
             (r, s') \<Rightarrow> (r, w\<lparr>wnet := n', wstore := s'\<rparr>)))"
  by (simp add: processImage_def acquire_and_download_def split: prod.splits option.splits sum.splits)

lemma processImage_failed_download:
  "acquire_and_download url (wnet w) = (Inl e, n')
   \<Longrightarrow> processImage L url src cat ow oh w = ((0, Some e), w\<lparr>wnet := n'\<rparr>)"
  by (simp add: processImage_eq)

lemma processImage_downloaded:
  "acquire_and_download url (wnet w) = (Inr data, n')
   \<Longrightarrow> processImage L url src cat ow oh w =
       (fst (storeImage L url src cat ow oh data (wstore w)),
        w\<lparr>wnet := n', wstore := snd (storeImage L url src cat ow oh data (wstore w))\<rparr>)"
  by (simp add: processImage_eq split: prod.splits)

lemma processImage_result:
  "fst (processImage L url src cat ow oh w) =
     (case fst (acquire_and_download url (wnet w)) of
        Inl e \<Rightarrow> (0, Some e)
      | Inr data \<Rightarrow> fst (storeImage L url src cat ow oh data (wstore w)))"
  by (simp add: processImage_eq split: prod.splits sum.splits)

lemma processImage_wstore:
  "wstore (snd (processImage L url src cat ow oh w)) =
     (case fst (acquire_and_download url (wnet w)) of
        Inl e \<Rightarrow> wstore w
      | Inr data \<Rightarrow> snd (storeImage L url src cat ow oh data (wstore w)))"
  by (simp add: processImage_eq split: prod.splits sum.splits)

text \<open>
  C10.  Whenever \<open>processImage\<close> stores an image, for bytes \<open>data\<close> that it downloaded,
  the new catalog row has the hash of \<open>data\<close>, the format \<open>webp\<close> and the filename
  \<open><hash>.webp\<close>, and the file of that name holds what was stored.  This includes the
  fallback: when the transformer fails, the file holds \<open>data\<close> itself, whatever its
  encoding, under the same format tag and extension.
\<close>

theorem C10_format_and_extension_are_constant:
  "fst (acquire_and_download url (wnet w)) = Inr data \<and>
   fst (processImage L url src cat ow oh w) = (1, None)
   \<longrightarrow> (\<exists>r. rows (wstore (snd (processImage L url src cat ow oh w))) = rows (wstore w) @ [r]
          \<and> Hash r = contentHash L data
          \<and> Format r = ''webp''
          \<and> Filename r = contentHash L data @ ''.webp''
          \<and> files (wstore (snd (processImage L url src cat ow oh w))) (Filename r)
              = Some (fst (stored_form L data ow oh))
          \<and> ((\<exists>e. ForTerminal L data 480 = Inl e)
               \<longrightarrow> files (wstore (snd (processImage L url src cat ow oh w))) (Filename r) = Some data))"
proof
  let ?w' = "snd (processImage L url src cat ow oh w)"
  assume a: "fst (acquire_and_download url (wnet w)) = Inr data \<and>
   fst (processImage L url src cat ow oh w) = (1, None)"
  then obtain n' where "acquire_and_download url (wnet w) = (Inr data, n')"
    by (cases "acquire_and_download url (wnet w)") auto
  then have p: "processImage L url src cat ow oh w =
       (fst (storeImage L url src cat ow oh data (wstore w)),
        w\<lparr>wnet := n', wstore := snd (storeImage L url src cat ow oh data (wstore w))\<rparr>)"
    using processImage_downloaded by blast
  with a have one: "storeImage L url src cat ow oh data (wstore w) = ((Suc 0, None), wstore ?w')"
    by (cases "storeImage L url src cat ow oh data (wstore w)") auto
  note c = storeImage_one [OF one]
  from c have "storeImage L url src cat ow oh data (wstore w) = ((1, None),
          (wstore w)\<lparr>db_ops := Suc (Suc (db_ops (wstore w))), disk_ops := Suc (disk_ops (wstore w)),
            files := (files (wstore w))(contentHash L data @ ''.webp'' \<mapsto> fst (stored_form L data ow oh)),
            rows := rows (wstore w) @
              [\<lparr>ID = last_id (wstore w) + 1, Hash = contentHash L data, Source = src, SourceURL = url,
                Category = cat, Width = fst (snd (stored_form L data ow oh)),
                Height = snd (snd (stored_form L data ow oh)), Format = ''webp'',
                SizeBytes = int (length (fst (stored_form L data ow oh))),
                Filename = contentHash L data @ ''.webp''\<rparr>],
            last_id := last_id (wstore w) + 1\<rparr>)"
    using storeImage_stored [of "wstore w" L data url src cat ow oh] by simp
  with one have "wstore ?w' =
          (wstore w)\<lparr>db_ops := Suc (Suc (db_ops (wstore w))), disk_ops := Suc (disk_ops (wstore w)),
            files := (files (wstore w))(contentHash L data @ ''.webp'' \<mapsto> fst (stored_form L data ow oh)),
            rows := rows (wstore w) @
              [\<lparr>ID = last_id (wstore w) + 1, Hash = contentHash L data, Source = src, SourceURL = url,
                Category = cat, Width = fst (snd (stored_form L data ow oh)),
                Height = snd (snd (stored_form L data ow oh)), Format = ''webp'',
                SizeBytes = int (length (fst (stored_form L data ow oh))),
                Filename = contentHash L data @ ''.webp''\<rparr>],
            last_id := last_id (wstore w) + 1\<rparr>"
    by simp
  then show "\<exists>r. rows (wstore ?w') = rows (wstore w) @ [r]
          \<and> Hash r = contentHash L data
          \<and> Format r = ''webp''
          \<and> Filename r = contentHash L data @ ''.webp''
          \<and> files (wstore ?w') (Filename r) = Some (fst (stored_form L data ow oh))
          \<and> ((\<exists>e. ForTerminal L data 480 = Inl e) \<longrightarrow> files (wstore ?w') (Filename r) = Some data)"
    by (auto simp: stored_form_def)
qed

subsection \<open>Evaluating the orchestrator on the concrete environments\<close>

lemmas store_eval =
  storeImage_def HasHash_def db_exec_def Insert_def os_WriteFile_def os_Remove_def
  contentHash_def hex_EncodeToString_def hextable_def ForTerminal_def decodeImage_def
  toy_libs_def toy_decode_def empty_store_def fresh_world_def processImage_def
  acquire_and_download_def stored_form_def Let_def

lemma fallback_download:
  "acquire_and_download ''u'' (wnet fallback_world) =
     (Inr [9], quiet_net (always (Response 200 [9] None))
        \<lparr>sent := 1, ticks := 1, trace := [TokenAcquired DownloadLimiter, Sent ''GET'' ''u'' None]\<rparr>)"
  by (simp add: fallback_world_def store_eval net_eval)

lemma fallback_transform: "ForTerminal toy_libs [9] 480 = Inl OptimizeDecode"
  by (simp add: store_eval)

lemma fallback_hash: "contentHash toy_libs [9] = ''09''"
  by (simp add: store_eval)

lemma fallback_store:
  "storeImage toy_libs ''u'' ''waifu.pics'' ''sfw'' 0 0 [9] empty_store =
     ((1, None),
      empty_store\<lparr>db_ops := 2, disk_ops := 1, files := [''09.webp'' \<mapsto> [9]],
        rows := [\<lparr>ID = 1, Hash = ''09'', Source = ''waifu.pics'', SourceURL = ''u'',
                  Category = ''sfw'', Width = 0, Height = 0, Format = ''webp'', SizeBytes = 1,
                  Filename = ''09.webp''\<rparr>],
        last_id := 1\<rparr>)"
  by (simp add: store_eval)

lemma fallback_process:
  "processImage toy_libs ''u'' ''waifu.pics'' ''sfw'' 0 0 fallback_world =
     ((1, None),
      \<lparr>wnet = quiet_net (always (Response 200 [9] None))
         \<lparr>sent := 1, ticks := 1, trace := [TokenAcquired DownloadLimiter, Sent ''GET'' ''u'' None]\<rparr>,
       wstore = empty_store\<lparr>db_ops := 2, disk_ops := 1, files := [''09.webp'' \<mapsto> [9]],
        rows := [\<lparr>ID = 1, Hash = ''09'', Source = ''waifu.pics'', SourceURL = ''u'',
                  Category = ''sfw'', Width = 0, Height = 0, Format = ''webp'', SizeBytes = 1,
                  Filename = ''09.webp''\<rparr>],
        last_id := 1\<rparr>,
       wlog = []\<rparr>)"
  using processImage_downloaded [OF fallback_download, of toy_libs "''waifu.pics''" "''sfw''" 0 0]
  by (simp add: fallback_store fallback_world_def fresh_world_def)

theorem C10_format_and_extension_witness:
  "fst (acquire_and_download ''u'' (wnet fallback_world)) = Inr [9] \<and>
   fst (processImage toy_libs ''u'' ''waifu.pics'' ''sfw'' 0 0 fallback_world) = (1, None) \<and>
   (\<exists>r. rows (wstore (snd (processImage toy_libs ''u'' ''waifu.pics'' ''sfw'' 0 0 fallback_world)))
           = rows (wstore fallback_world) @ [r]
        \<and> Hash r = contentHash toy_libs [9]
        \<and> Format r = ''webp''
        \<and> Filename r = contentHash toy_libs [9] @ ''.webp''
        \<and> files (wstore (snd (processImage toy_libs ''u'' ''waifu.pics'' ''sfw'' 0 0 fallback_world)))
             (Filename r) = Some (fst (stored_form toy_libs [9] 0 0))
        \<and> (\<exists>e. ForTerminal toy_libs [9] 480 = Inl e)
        \<and> files (wstore (snd (processImage toy_libs ''u'' ''waifu.pics'' ''sfw'' 0 0 fallback_world)))
             (Filename r) = Some [9])"
  using C10_format_and_extension_are_constant
    [of "''u''" fallback_world "[9]" toy_libs "''waifu.pics''" "''sfw''" 0 0]
  by (auto simp: fallback_download fallback_process fallback_transform)

text \<open>
  C5.  A candidate whose download succeeds with bytes \<open>data\<close>, whose content is new to
  the catalog and on which the transformer fails is stored all the same (the catalog and
  the disk not failing): \<open>processImage\<close> returns 1 without an error, the file
  \<open><hash>.webp\<close> holds exactly \<open>data\<close>, and the new row records the length of \<open>data\<close> as
  \<open>SizeBytes\<close> and the width and height that the adapter passed in (\<open>ingestWaifuPics\<close>
  always passes 0 and 0).
\<close>

theorem C5_fallback_stores_original_bytes:
  "fst (acquire_and_download url (wnet w)) = Inr data \<and>
   isl (ForTerminal L data 480) \<and>
   contentHash L data \<notin> hashes (wstore w) \<and>
   \<not> db_fault (wstore w) (db_ops (wstore w)) \<and>
   \<not> disk_fault (wstore w) (disk_ops (wstore w)) \<and>
   \<not> db_fault (wstore w) (Suc (db_ops (wstore w)))
   \<longrightarrow> fst (processImage L url src cat ow oh w) = (1, None)
       \<and> files (wstore (snd (processImage L url src cat ow oh w))) (contentHash L data @ ''.webp'')
           = Some data
       \<and> rows (wstore (snd (processImage L url src cat ow oh w))) =
           rows (wstore w) @
             [\<lparr>ID = last_id (wstore w) + 1, Hash = contentHash L data, Source = src,
               SourceURL = url, Category = cat, Width = ow, Height = oh, Format = ''webp'',
               SizeBytes = int (length data), Filename = contentHash L data @ ''.webp''\<rparr>]"
proof
  assume a: "fst (acquire_and_download url (wnet w)) = Inr data \<and>
   isl (ForTerminal L data 480) \<and>
   contentHash L data \<notin> hashes (wstore w) \<and>
   \<not> db_fault (wstore w) (db_ops (wstore w)) \<and>
   \<not> disk_fault (wstore w) (disk_ops (wstore w)) \<and>
   \<not> db_fault (wstore w) (Suc (db_ops (wstore w)))"
  then obtain n' where d: "acquire_and_download url (wnet w) = (Inr data, n')"
    by (cases "acquire_and_download url (wnet w)") auto
  from a have sf: "stored_form L data ow oh = (data, ow, oh)"
    by (cases "ForTerminal L data 480") (simp_all add: stored_form_def)
  from a have "storeImage L url src cat ow oh data (wstore w) = ((1, None),
          (wstore w)\<lparr>db_ops := Suc (Suc (db_ops (wstore w))), disk_ops := Suc (disk_ops (wstore w)),
            files := (files (wstore w))(contentHash L data @ ''.webp'' \<mapsto> data),
            rows := rows (wstore w) @
              [\<lparr>ID = last_id (wstore w) + 1, Hash = contentHash L data, Source = src, SourceURL = url,
                Category = cat, Width = ow, Height = oh, Format = ''webp'',
                SizeBytes = int (length data),
                Filename = contentHash L data @ ''.webp''\<rparr>],
            last_id := last_id (wstore w) + 1\<rparr>)"
    using storeImage_stored [of "wstore w" L data url src cat ow oh] by (simp add: sf)
  then show "fst (processImage L url src cat ow oh w) = (1, None)
       \<and> files (wstore (snd (processImage L url src cat ow oh w))) (contentHash L data @ ''.webp'')
           = Some data
       \<and> rows (wstore (snd (processImage L url src cat ow oh w))) =
           rows (wstore w) @
             [\<lparr>ID = last_id (wstore w) + 1, Hash = contentHash L data, Source = src,
               SourceURL = url, Category = cat, Width = ow, Height = oh, Format = ''webp'',
               SizeBytes = int (length data), Filename = contentHash L data @ ''.webp''\<rparr>]"
    by (simp add: processImage_downloaded [OF d])
qed

theorem C5_fallback_witness:
  "fst (acquire_and_download ''u'' (wnet fallback_world)) = Inr [9] \<and>
   isl (ForTerminal toy_libs [9] 480) \<and>
   contentHash toy_libs [9] \<notin> hashes (wstore fallback_world) \<and>
   \<not> db_fault (wstore fallback_world) (db_ops (wstore fallback_world)) \<and>
   \<not> disk_fault (wstore fallback_world) (disk_ops (wstore fallback_world)) \<and>
   \<not> db_fault (wstore fallback_world) (Suc (db_ops (wstore fallback_world))) \<and>
   fst (processImage toy_libs ''u'' ''waifu.im'' ''sfw'' 640 400 fallback_world) = (1, None) \<and>
   files (wstore (snd (processImage toy_libs ''u'' ''waifu.im'' ''sfw'' 640 400 fallback_world)))
     (contentHash toy_libs [9] @ ''.webp'') = Some [9] \<and>
   rows (wstore (snd (processImage toy_libs ''u'' ''waifu.im'' ''sfw'' 640 400 fallback_world))) =
     rows (wstore fallback_world) @
       [\<lparr>ID = last_id (wstore fallback_world) + 1, Hash = contentHash toy_libs [9],
         Source = ''waifu.im'', SourceURL = ''u'', Category = ''sfw'', Width = 640, Height = 400,
         Format = ''webp'', SizeBytes = int (length [9::byte]),
         Filename = contentHash toy_libs [9] @ ''.webp''\<rparr>]"
proof -
  have "hashes (wstore fallback_world) = {}"
    "\<And>k. \<not> db_fault (wstore fallback_world) k" "\<And>k. \<not> disk_fault (wstore fallback_world) k"
    by (simp_all add: fallback_world_def fresh_world_def empty_store_def hashes_def)
  then show ?thesis
    using C5_fallback_stores_original_bytes
      [of "''u''" fallback_world "[9]" toy_libs "''waifu.im''" "''sfw''" 640 400]
    by (simp add: fallback_download fallback_transform)
qed

subsection \<open>Files without a row\<close>

lemma blobs_catalogued_frame [simp]:
  "blobs_catalogued (s\<lparr>db_ops := a\<rparr>) = blobs_catalogued s"
  "blobs_catalogued (s\<lparr>disk_ops := b\<rparr>) = blobs_catalogued s"
  by (simp_all add: blobs_catalogued_def)

text \<open>
  As long as the file write and the removal that may follow it do not fail, storing an
  image keeps every file of the directory tied to a catalog row.
\<close>

lemma storeImage_blobs_catalogued:
  assumes "blobs_catalogued s" "\<not> disk_fault s (disk_ops s)" "\<not> disk_fault s (Suc (disk_ops s))"
  shows "blobs_catalogued (snd (storeImage L url src cat ow oh data s))"
proof (cases "db_fault s (db_ops s)")
  case True
  with assms show ?thesis by (simp add: storeImage_query_fault)
next
  case q: False
  show ?thesis
  proof (cases "contentHash L data \<in> hashes s")
    case True
    with q assms show ?thesis by (simp add: storeImage_known)
  next
    case new: False
    show ?thesis
    proof (cases "db_fault s (Suc (db_ops s))")
      case True
      with q new assms show ?thesis
        by (auto simp: storeImage_insert_fault blobs_catalogued_def)
    next
      case False
      with q new assms show ?thesis
        by (auto simp: storeImage_stored blobs_catalogued_def)
    qed
  qed
qed

lemma write_fault_download:
  "acquire_and_download ''u'' (wnet write_fault_world) =
     (Inr [9], quiet_net (always (Response 200 [9] None))
        \<lparr>sent := 1, ticks := 1, trace := [TokenAcquired DownloadLimiter, Sent ''GET'' ''u'' None]\<rparr>)"
  by (simp add: write_fault_world_def store_eval net_eval)

lemma insert_fault_download:
  "acquire_and_download ''u'' (wnet insert_fault_world) =
     (Inr [9], quiet_net (always (Response 200 [9] None))
        \<lparr>sent := 1, ticks := 1, trace := [TokenAcquired DownloadLimiter, Sent ''GET'' ''u'' None]\<rparr>)"
  by (simp add: insert_fault_world_def store_eval net_eval)

lemma write_fault_store:
  "storeImage toy_libs ''u'' ''waifu.pics'' ''sfw'' 0 0 [9] (wstore write_fault_world) =
     ((0, Some WriteImage),
      (wstore write_fault_world)\<lparr>db_ops := 1, disk_ops := 1, files := [''09.webp'' \<mapsto> []]\<rparr>)"
  by (simp add: write_fault_world_def store_eval)

lemma insert_fault_store:
  "storeImage toy_libs ''u'' ''waifu.pics'' ''sfw'' 0 0 [9] (wstore insert_fault_world) =
     ((0, Some CatalogInsert),
      (wstore insert_fault_world)\<lparr>db_ops := 2, disk_ops := 2, files := Map.empty\<rparr>)"
  by (simp add: insert_fault_world_def store_eval)

text \<open>
  C7 (the code on a failed write).  The catalog and the image directory are empty, the
  download of the candidate succeeds, and \<open>os.WriteFile\<close> fails after it has created the
  file: \<open>processImage\<close> returns the \<open>write image\<close> error and leaves the empty file
  \<open>09.webp\<close> in the directory, with no row in the catalog.  On the sibling path, where
  the write succeeds and the insert fails, \<open>processImage\<close> removes the file before it
  returns the error.
\<close>

theorem C7_failed_write_leaves_orphan:
  "files (wstore write_fault_world) = Map.empty \<and>
   rows (wstore write_fault_world) = [] \<and>
   fst (processImage toy_libs ''u'' ''waifu.pics'' ''sfw'' 0 0 write_fault_world)
     = (0, Some WriteImage) \<and>
   files (wstore (snd (processImage toy_libs ''u'' ''waifu.pics'' ''sfw'' 0 0 write_fault_world)))
     ''09.webp'' = Some [] \<and>
   rows (wstore (snd (processImage toy_libs ''u'' ''waifu.pics'' ''sfw'' 0 0 write_fault_world)))
     = [] \<and>
   fst (processImage toy_libs ''u'' ''waifu.pics'' ''sfw'' 0 0 insert_fault_world)
     = (0, Some CatalogInsert) \<and>
   files (wstore (snd (processImage toy_libs ''u'' ''waifu.pics'' ''sfw'' 0 0 insert_fault_world)))
     ''09.webp'' = None"
proof -
  have "files (wstore write_fault_world) = Map.empty" "rows (wstore write_fault_world) = []"
    by (simp_all add: write_fault_world_def empty_store_def)
  then show ?thesis
    by (simp add: processImage_downloaded [OF write_fault_download]
        processImage_downloaded [OF insert_fault_download] write_fault_store insert_fault_store)
qed

section \<open>A whole cycle\<close>

subsection \<open>The adapters in terms of their listing\<close>

lemma ingestWaifuIm_via:
  "ingestWaifuIm L category w = ingest_via L ''waifu.im'' category (listing_im L category (wnet w)) w"
  by (simp add: ingestWaifuIm_def ingest_via_def listing_im_def waifuImURL_def Let_def
      split: prod.splits option.splits sum.splits)

lemma ingestWaifuPics_via:
  "ingestWaifuPics L apiURL category w =
     ingest_via L ''waifu.pics'' category (listing_pics L apiURL (wnet w)) w"
  by (simp add: ingestWaifuPics_def ingest_via_def listing_pics_def
      split: prod.splits option.splits sum.splits)

lemma log_Printf_fields [simp]:
  "wnet (log_Printf l w) = wnet w" "wstore (log_Printf l w) = wstore w"
  "wlog (log_Printf l w) = wlog w @ [l]"
  by (simp_all add: log_Printf_def)

lemma log_failure_fields [simp]:
  "wnet (log_failure p e w) = wnet w" "wstore (log_failure p e w) = wstore w"
  by (simp_all add: log_failure_def split: option.splits)

subsection \<open>The count is the number of new rows\<close>

lemma storeImage_count:
  "length (rows (snd (storeImage L url src cat ow oh data s)))
     = length (rows s) + fst (fst (storeImage L url src cat ow oh data s))"
proof (cases "db_fault s (db_ops s)")
  case True
  then show ?thesis by (simp add: storeImage_query_fault)
next
  case q: False
  show ?thesis
  proof (cases "contentHash L data \<in> hashes s")
    case True
    with q show ?thesis by (simp add: storeImage_known)
  next
    case new: False
    show ?thesis
    proof (cases "disk_fault s (disk_ops s)")
      case True
      with q new show ?thesis by (simp add: storeImage_write_fault split: option.splits)
    next
      case wr: False
      show ?thesis
      proof (cases "db_fault s (Suc (db_ops s))")
        case True
        with q new wr show ?thesis by (simp add: storeImage_insert_fault)
      next
        case False
        with q new wr show ?thesis by (simp add: storeImage_stored)
      qed
    qed
  qed
qed

lemma processImage_net:
  "wnet (snd (processImage L url src cat ow oh w)) = snd (acquire_and_download url (wnet w))"
  by (simp add: processImage_eq split: prod.splits sum.splits)

lemma processImage_count:
  "length (rows (wstore (snd (processImage L url src cat ow oh w))))
     = length (rows (wstore w)) + fst (fst (processImage L url src cat ow oh w))"
  by (cases "fst (acquire_and_download url (wnet w))")
     (simp_all add: processImage_wstore processImage_result storeImage_count)

lemma processAll_step:
  "processAll L src cat ((url, ow, oh) # items) c w =
     (case snd (fst (processImage L url src cat ow oh w)) of
        Some e \<Rightarrow> processAll L src cat items c
                   (log_Printf (ProcessFailed url e) (snd (processImage L url src cat ow oh w)))
      | None \<Rightarrow> processAll L src cat items (c + fst (fst (processImage L url src cat ow oh w)))
                   (snd (processImage L url src cat ow oh w)))"
  by (simp split: prod.splits option.splits)

lemma processImage_error_zero:
  "snd (fst (processImage L url src cat ow oh w)) = Some e
   \<Longrightarrow> fst (fst (processImage L url src cat ow oh w)) = 0"
  by (auto simp: processImage_def storeImage_def Let_def
      split: prod.splits option.splits sum.splits if_splits)

declare processAll.simps(2) [simp del]

lemma processAll_net:
  "wnet (snd (processAll L src cat items c w)) = snd (payloads items (wnet w))"
proof (induction items arbitrary: c w)
  case Nil
  then show ?case by simp
next
  case (Cons item items)
  obtain url ow oh where i: "item = (url, ow, oh)" by (cases item)
  show ?case
    unfolding i processAll_step
    by (simp add: Cons.IH processImage_net processImage_eq split: option.splits prod.splits sum.splits)
qed

lemma processAll_count:
  "length (rows (wstore (snd (processAll L src cat items c w)))) + c
     = length (rows (wstore w)) + fst (processAll L src cat items c w)"
proof (induction items arbitrary: c w)
  case Nil
  then show ?case by simp
next
  case (Cons item items)
  obtain url ow oh where i: "item = (url, ow, oh)" by (cases item)
  let ?p = "processImage L url src cat ow oh w"
  show ?case
  proof (cases "snd (fst ?p)")
    case None
    with Cons.IH [where w = "snd ?p" and c = "c + fst (fst ?p)"]
      processImage_count [of L url src cat ow oh w]
    show ?thesis unfolding i processAll_step by simp
  next
    case (Some e)
    with Cons.IH [where w = "log_Printf (ProcessFailed url e) (snd ?p)" and c = c]
      processImage_count [of L url src cat ow oh w] processImage_error_zero [of L url src cat ow oh w e]
    show ?thesis unfolding i processAll_step by simp
  qed
qed

subsection \<open>The network environment only moves forward\<close>

lemma extends_refl [simp]: "extends n n"
  by (simp add: extends_def)

lemma extends_trans: "extends a b \<Longrightarrow> extends b c \<Longrightarrow> extends a c"
  by (auto simp: extends_def)

lemma extends_emit: "extends n (emit e n)"
  by (auto simp: extends_def emit_def)

lemma extends_limiter_Wait: "extends n (snd (limiter_Wait l n))"
  by (auto simp: extends_def limiter_Wait_def emit_def)

lemma extends_sleep_or_done: "extends n (snd (sleep_or_done d n))"
  by (auto simp: extends_def sleep_or_done_def emit_def)

lemma extends_draw_backoff: "extends n (snd (draw_backoff a n))"
  by (auto simp: extends_def draw_backoff_def)

lemma extends_hc_Do: "extends n (snd (hc_Do m u rb n))"
  by (auto simp: extends_def hc_Do_def emit_def)

lemma hc_Do_traced: "Sent m u rb \<in> set (trace (snd (hc_Do m u rb n)))"
  by (simp add: hc_Do_def emit_def)

lemma extends_fetchAttempt: "extends n (snd (fetchAttempt m u rb s l attempt n))"
proof -
  have pre: "extends n (snd (if 0 < attempt then
               (case draw_backoff attempt n of
                  (None, n') \<Rightarrow> (Some RandPanic, n')
                | (Some backoff, n') \<Rightarrow>
                    (case sleep_or_done backoff (emit (RetryLogged s attempt backoff) n') of
                       (Some e, n'') \<Rightarrow> (Some e, n'')
                     | (None, n'') \<Rightarrow> limiter_Wait l n''))
             else (None, n)))" (is "extends n (snd ?pre)")
  proof (cases "0 < attempt")
    case False
    then show ?thesis by simp
  next
    case True
    obtain d n1 where d: "draw_backoff attempt n = (d, n1)" by (cases "draw_backoff attempt n")
    then have e1: "extends n n1" using extends_draw_backoff [of n attempt] by simp
    show ?thesis
    proof (cases d)
      case None
      with True d e1 show ?thesis by simp
    next
      case (Some backoff)
      let ?n2 = "emit (RetryLogged s attempt backoff) n1"
      obtain r n3 where sl: "sleep_or_done backoff ?n2 = (r, n3)"
        by (cases "sleep_or_done backoff ?n2")
      have e3: "extends n n3"
        using e1 extends_emit [of n1 "RetryLogged s attempt backoff"]
          extends_sleep_or_done [of ?n2 backoff] sl
        by (auto intro: extends_trans)
      show ?thesis
      proof (cases r)
        case None
        with True d Some sl e3 extends_limiter_Wait [of n3 l] show ?thesis
          by (auto intro: extends_trans)
      next
        case (Some e)
        with True d \<open>d = Some backoff\<close> sl e3 show ?thesis by simp
      qed
    qed
  qed
  obtain p n1 where p: "?pre = (p, n1)" by (cases ?pre)
  with pre have e1: "extends n n1" by simp
  have "extends n1 (snd (hc_Do m u rb n1))" by (rule extends_hc_Do)
  with e1 have e2: "extends n (snd (hc_Do m u rb n1))" by (rule extends_trans)
  show ?thesis
    using p e1 e2
    by (auto simp: fetchAttempt_def Let_def split: prod.splits option.splits http_result.splits)
qed

lemma extends_downloadAttempt: "extends n (snd (downloadAttempt u attempt n))"
proof -
  have pre: "extends n (snd (if 0 < attempt then
               (case draw_backoff attempt n of
                  (None, n') \<Rightarrow> (Some RandPanic, n')
                | (Some backoff, n') \<Rightarrow> sleep_or_done backoff n')
             else (None, n)))" (is "extends n (snd ?pre)")
  proof (cases "0 < attempt")
    case False
    then show ?thesis by simp
  next
    case True
    obtain d n1 where d: "draw_backoff attempt n = (d, n1)" by (cases "draw_backoff attempt n")
    then have e1: "extends n n1" using extends_draw_backoff [of n attempt] by simp
    show ?thesis
    proof (cases d)
      case None
      with True d e1 show ?thesis by simp
    next
      case (Some backoff)
      with True d e1 extends_sleep_or_done [of n1 backoff] show ?thesis
        by (auto intro: extends_trans)
    qed
  qed
  obtain p n1 where p: "?pre = (p, n1)" by (cases ?pre)
  with pre have e1: "extends n n1" by simp
  have "extends n1 (snd (hc_Do ''GET'' u None n1))" by (rule extends_hc_Do)
  with e1 have e2: "extends n (snd (hc_Do ''GET'' u None n1))" by (rule extends_trans)
  show ?thesis
    using p e1 e2
    by (auto simp: downloadAttempt_def Let_def split: prod.splits option.splits http_result.splits)
qed

lemma extends_fetchLoop: "extends n (snd (fetchLoop m u rb s l attempt le n))"
proof (induction m u rb s l attempt le n rule: fetchLoop.induct)
  case (1 m u rb s l attempt le n)
  show ?case
  proof (cases "attempt < maxRetries")
    case False
    then show ?thesis by (simp add: fetchLoop_exhausted)
  next
    case True
    obtain st n1 where a: "fetchAttempt m u rb s l attempt n = (st, n1)"
      by (cases "fetchAttempt m u rb s l attempt n")
    then have e1: "extends n n1" using extends_fetchAttempt [of n m u rb s l attempt] by simp
    show ?thesis
    proof (cases st)
      case (Return r)
      with True a e1 show ?thesis by (simp add: fetchLoop_Return)
    next
      case (Continue e)
      with "1.IH" True a have "extends n1 (snd (fetchLoop m u rb s l (Suc attempt) (Some e) n1))"
        by simp
      with True a Continue e1 show ?thesis
        by (auto simp: fetchLoop_Continue intro: extends_trans)
    qed
  qed
qed

lemma extends_downloadLoop: "extends n (snd (downloadLoop u attempt le n))"
proof (induction u attempt le n rule: downloadLoop.induct)
  case (1 u attempt le n)
  show ?case
  proof (cases "attempt < maxRetries")
    case False
    then show ?thesis by (simp add: downloadLoop_exhausted)
  next
    case True
    obtain st n1 where a: "downloadAttempt u attempt n = (st, n1)"
      by (cases "downloadAttempt u attempt n")
    then have e1: "extends n n1" using extends_downloadAttempt [of n u attempt] by simp
    show ?thesis
    proof (cases st)
      case (Return r)
      with True a e1 show ?thesis by (simp add: downloadLoop_Return)
    next
      case (Continue e)
      with "1.IH" True a have "extends n1 (snd (downloadLoop u (Suc attempt) (Some e) n1))"
        by simp
      with True a Continue e1 show ?thesis
        by (auto simp: downloadLoop_Continue intro: extends_trans)
    qed
  qed
qed

lemma extends_acquire_and_download: "extends n (snd (acquire_and_download u n))"
proof -
  obtain r n1 where w: "limiter_Wait DownloadLimiter n = (r, n1)"
    by (cases "limiter_Wait DownloadLimiter n")
  then have e1: "extends n n1" using extends_limiter_Wait [of n DownloadLimiter] by simp
  show ?thesis
  proof (cases r)
    case (Some e)
    with w e1 show ?thesis by (simp add: acquire_and_download_def)
  next
    case None
    with w e1 extends_downloadLoop [of n1 u 0 None] show ?thesis
      by (auto simp: acquire_and_download_def downloadImage_def intro: extends_trans)
  qed
qed

lemma extends_payloads: "extends n (snd (payloads items n))"
proof (induction items arbitrary: n)
  case Nil
  then show ?case by simp
next
  case (Cons item items)
  obtain url ow oh where i: "item = (url, ow, oh)" by (cases item)
  obtain r n1 where a: "acquire_and_download url n = (r, n1)"
    by (cases "acquire_and_download url n")
  then have "extends n n1" using extends_acquire_and_download [of n url] by simp
  then have "extends n (snd (payloads items n1))" using Cons.IH [of n1] by (rule extends_trans)
  with a show ?case unfolding i by (cases r) (auto split: prod.splits)
qed

lemma fetchWithRetry_traced:
  assumes "valid_request n m u"
  shows "Sent m u rb \<in> set (trace (snd (fetchWithRetry m u rb s l n)))"
proof -
  obtain st n1 where a: "fetchAttempt m u rb s l 0 n = (st, n1)"
    by (cases "fetchAttempt m u rb s l 0 n")
  with assms have t: "Sent m u rb \<in> set (trace n1)"
    by (auto simp: fetchAttempt_def Let_def hc_Do_def emit_def
        split: prod.splits option.splits http_result.splits if_splits)
  show ?thesis
  proof (cases st)
    case (Return r)
    with a t show ?thesis by (simp add: fetchWithRetry_def fetchLoop_Return maxRetries_def)
  next
    case (Continue e)
    with a have "fetchWithRetry m u rb s l n = fetchLoop m u rb s l (Suc 0) (Some e) n1"
      by (simp add: fetchWithRetry_def fetchLoop_Continue maxRetries_def)
    with t extends_fetchLoop [of n1 m u rb s l "Suc 0" "Some e"] show ?thesis
      by (auto simp: extends_def)
  qed
qed

subsection \<open>One adapter\<close>

lemma ingest_via_failed:
  "fst lst = Inl e \<Longrightarrow> ingest_via L src cat lst w = ((0, Some e), w\<lparr>wnet := snd lst\<rparr>)"
  by (cases lst) (simp add: ingest_via_def)

lemma ingest_via_listed:
  "fst lst = Inr items
   \<Longrightarrow> ingest_via L src cat lst w =
       ((fst (processAll L src cat items 0 (w\<lparr>wnet := snd lst\<rparr>)), None),
        snd (processAll L src cat items 0 (w\<lparr>wnet := snd lst\<rparr>)))"
  by (cases lst) (simp add: ingest_via_def split: prod.splits)

lemma ingest_via_net: "wnet (snd (ingest_via L src cat lst w)) = via_net lst"
  by (cases lst; cases "fst lst")
     (simp_all add: ingest_via_failed ingest_via_listed via_net_def processAll_net)

lemma ingest_via_count:
  "length (rows (wstore (snd (ingest_via L src cat lst w))))
     = length (rows (wstore w)) + fst (fst (ingest_via L src cat lst w))"
proof (cases "fst lst")
  case (Inl e)
  then show ?thesis by (simp add: ingest_via_failed)
next
  case (Inr items)
  with processAll_count [of L src cat items 0 "w\<lparr>wnet := snd lst\<rparr>"] show ?thesis
    by (simp add: ingest_via_listed)
qed

lemma ingest_via_error:
  "snd (fst (ingest_via L src cat lst w)) = (case fst lst of Inl e \<Rightarrow> Some e | Inr items \<Rightarrow> None)"
  by (cases "fst lst") (simp_all add: ingest_via_failed ingest_via_listed)

lemma ingest_via_error_zero:
  assumes "snd (fst (ingest_via L src cat lst w)) \<noteq> None"
  shows "fst (fst (ingest_via L src cat lst w)) = 0
         \<and> wstore (snd (ingest_via L src cat lst w)) = wstore w"
proof (cases "fst lst")
  case (Inl e)
  then show ?thesis by (simp add: ingest_via_failed)
next
  case (Inr items)
  with assms show ?thesis by (simp add: ingest_via_error)
qed

lemma processImage_log: "wlog (snd (processImage L url src cat ow oh w)) = wlog w"
  by (simp add: processImage_eq split: prod.splits sum.splits)

lemma processAll_log: "set (wlog w) \<subseteq> set (wlog (snd (processAll L src cat items c w)))"
proof (induction items arbitrary: c w)
  case Nil
  then show ?case by simp
next
  case (Cons item items)
  obtain url ow oh where i: "item = (url, ow, oh)" by (cases item)
  let ?p = "processImage L url src cat ow oh w"
  show ?case
  proof (cases "snd (fst ?p)")
    case None
    with Cons.IH [where w = "snd ?p" and c = "c + fst (fst ?p)"] show ?thesis
      unfolding i processAll_step by (simp add: processImage_log)
  next
    case (Some e)
    with Cons.IH [where w = "log_Printf (ProcessFailed url e) (snd ?p)" and c = c] show ?thesis
      unfolding i processAll_step by (auto simp: processImage_log)
  qed
qed

lemma ingest_via_log: "set (wlog w) \<subseteq> set (wlog (snd (ingest_via L src cat lst w)))"
proof (cases "fst lst")
  case (Inl e)
  then show ?thesis by (simp add: ingest_via_failed)
next
  case (Inr items)
  with processAll_log [of "w\<lparr>wnet := snd lst\<rparr>" L src cat items 0] show ?thesis
    by (simp add: ingest_via_listed)
qed

lemma log_failure_log: "set (wlog w) \<subseteq> set (wlog (log_failure pair err w))"
  by (auto simp: log_failure_def log_Printf_def split: option.splits)

lemma log_failure_logged: "AdapterFailed pair e \<in> set (wlog (log_failure pair (Some e) w))"
  by (simp add: log_failure_def log_Printf_def)

text \<open>An adapter followed by the logging of its failure, as \<open>Run\<close> chains them.\<close>

lemma adapter_then_log:
  "wnet (log_failure pair (snd (fst (ingest_via L src cat lst w))) (snd (ingest_via L src cat lst w)))
     = via_net lst"
  "length (rows (wstore (log_failure pair (snd (fst (ingest_via L src cat lst w)))
                           (snd (ingest_via L src cat lst w)))))
     = length (rows (wstore w)) + fst (fst (ingest_via L src cat lst w))"
  "set (wlog w)
     \<subseteq> set (wlog (log_failure pair (snd (fst (ingest_via L src cat lst w)))
                      (snd (ingest_via L src cat lst w))))"
  using ingest_via_log [of w L src cat lst]
    log_failure_log [of "snd (ingest_via L src cat lst w)" pair "snd (fst (ingest_via L src cat lst w))"]
  by (auto simp: ingest_via_net ingest_via_count)

subsection \<open>The listings send their request\<close>

lemma limiter_Wait_granted:
  "ctx_deadline n = None \<Longrightarrow> fst (limiter_Wait l n) = None"
  by (simp add: limiter_Wait_def)

lemma extends_via_net:
  assumes "extends n (snd lst)"
  shows "extends n (via_net lst)"
proof (cases "fst lst")
  case (Inl e)
  with assms show ?thesis by (cases lst) (simp add: via_net_def)
next
  case (Inr items)
  with assms extends_payloads [of "snd lst" items] show ?thesis
    by (cases lst) (auto simp: via_net_def intro: extends_trans)
qed

lemma listing_im_sent:
  assumes "ctx_deadline n = None" "valid_request n ''GET'' (waifuImURL cat)"
  shows "extends n (snd (listing_im L cat n))
         \<and> Sent ''GET'' (waifuImURL cat) None \<in> set (trace (snd (listing_im L cat n)))"
proof -
  obtain n1 where w: "limiter_Wait WaifuImLimiter n = (None, n1)"
    using limiter_Wait_granted [OF assms(1), of WaifuImLimiter]
    by (cases "limiter_Wait WaifuImLimiter n") auto
  then have e1: "extends n n1" using extends_limiter_Wait [of n WaifuImLimiter] by simp
  let ?f = "fetchWithRetry ''GET'' (waifuImURL cat) None ''waifu.im'' WaifuImLimiter n1"
  have e2: "extends n1 (snd ?f)" by (simp add: fetchWithRetry_def extends_fetchLoop)
  from e1 assms have "valid_request n1 ''GET'' (waifuImURL cat)" by (simp add: extends_def)
  then have t: "Sent ''GET'' (waifuImURL cat) None \<in> set (trace (snd ?f))"
    by (rule fetchWithRetry_traced)
  have "snd (listing_im L cat n) = snd ?f"
    by (simp add: listing_im_def w split: prod.splits sum.splits option.splits)
  with e1 e2 t show ?thesis by (auto intro: extends_trans)
qed

lemma listing_pics_sent:
  assumes "ctx_deadline n = None" "valid_request n ''POST'' apiURL"
  shows "extends n (snd (listing_pics L apiURL n))
         \<and> Sent ''POST'' apiURL (Some waifuPicsReqBody) \<in> set (trace (snd (listing_pics L apiURL n)))"
proof -
  obtain n1 where w: "limiter_Wait WaifuPicsLimiter n = (None, n1)"
    using limiter_Wait_granted [OF assms(1), of WaifuPicsLimiter]
    by (cases "limiter_Wait WaifuPicsLimiter n") auto
  then have e1: "extends n n1" using extends_limiter_Wait [of n WaifuPicsLimiter] by simp
  let ?f = "fetchWithRetry ''POST'' apiURL (Some waifuPicsReqBody) ''waifu.pics'' WaifuPicsLimiter n1"
  have e2: "extends n1 (snd ?f)" by (simp add: fetchWithRetry_def extends_fetchLoop)
  from e1 assms have "valid_request n1 ''POST'' apiURL" by (simp add: extends_def)
  then have t: "Sent ''POST'' apiURL (Some waifuPicsReqBody) \<in> set (trace (snd ?f))"
    by (rule fetchWithRetry_traced)
  have "snd (listing_pics L apiURL n) = snd ?f"
    by (simp add: listing_pics_def w split: prod.splits sum.splits option.splits)
  with e1 e2 t show ?thesis by (auto intro: extends_trans)
qed

lemma via_net_sent:
  assumes "extends n (snd lst) \<and> ev \<in> set (trace (snd lst))"
  shows "extends n (via_net lst) \<and> ev \<in> set (trace (via_net lst))"
proof -
  have "extends (snd lst) (via_net lst)" by (rule extends_via_net) simp
  with assms show ?thesis by (auto simp: extends_def)
qed

subsection \<open>The cycle\<close>

lemma Run_eq:
  "Run L w =
     ((fst (fst (ingestWaifuIm L ''sfw'' w))
       + fst (fst (ingestWaifuIm L ''nsfw'' (world_after_1 L w)))
       + fst (fst (ingestWaifuPics L waifuPicsManyURL ''sfw'' (world_after_2 L w)))
       + fst (fst (ingestWaifuPics L waifuPicsNSFWURL ''nsfw'' (world_after_3 L w))), None),
      world_after_4 L w)"
  by (simp add: Run_def world_after_1_def world_after_2_def world_after_3_def world_after_4_def
      split: prod.splits)

lemma world_after_net:
  "wnet (world_after_1 L w) = net_after_1 L (wnet w)"
  "wnet (world_after_2 L w) = net_after_2 L (wnet w)"
  "wnet (world_after_3 L w) = net_after_3 L (wnet w)"
  "wnet (world_after_4 L w) = net_after_4 L (wnet w)"
proof -
  show 1: "wnet (world_after_1 L w) = net_after_1 L (wnet w)"
    by (simp add: world_after_1_def net_after_1_def ingestWaifuIm_via ingest_via_net)
  show 2: "wnet (world_after_2 L w) = net_after_2 L (wnet w)"
    by (simp add: world_after_2_def net_after_2_def ingestWaifuIm_via ingest_via_net 1)
  show 3: "wnet (world_after_3 L w) = net_after_3 L (wnet w)"
    by (simp add: world_after_3_def net_after_3_def ingestWaifuPics_via ingest_via_net 2)
  show "wnet (world_after_4 L w) = net_after_4 L (wnet w)"
    by (simp add: world_after_4_def net_after_4_def ingestWaifuPics_via ingest_via_net 3)
qed

lemma world_after_rows:
  "length (rows (wstore (world_after_1 L w)))
     = length (rows (wstore w)) + fst (fst (ingestWaifuIm L ''sfw'' w))"
  "length (rows (wstore (world_after_2 L w)))
     = length (rows (wstore (world_after_1 L w)))
       + fst (fst (ingestWaifuIm L ''nsfw'' (world_after_1 L w)))"
  "length (rows (wstore (world_after_3 L w)))
     = length (rows (wstore (world_after_2 L w)))
       + fst (fst (ingestWaifuPics L waifuPicsManyURL ''sfw'' (world_after_2 L w)))"
  "length (rows (wstore (world_after_4 L w)))
     = length (rows (wstore (world_after_3 L w)))
       + fst (fst (ingestWaifuPics L waifuPicsNSFWURL ''nsfw'' (world_after_3 L w)))"
  by (simp_all add: world_after_1_def world_after_2_def world_after_3_def world_after_4_def
      ingestWaifuIm_via ingestWaifuPics_via ingest_via_count)

lemma world_after_log:
  "set (wlog w) \<subseteq> set (wlog (world_after_1 L w))"
  "set (wlog (world_after_1 L w)) \<subseteq> set (wlog (world_after_2 L w))"
  "set (wlog (world_after_2 L w)) \<subseteq> set (wlog (world_after_3 L w))"
  "set (wlog (world_after_3 L w)) \<subseteq> set (wlog (world_after_4 L w))"
  unfolding world_after_1_def world_after_2_def [of L w] world_after_3_def [of L w]
    world_after_4_def [of L w] ingestWaifuIm_via ingestWaifuPics_via
  by (rule adapter_then_log(3))+

lemma adapter_failure_logged:
  "snd (fst (ingestWaifuIm L ''sfw'' w)) = Some e
   \<Longrightarrow> AdapterFailed ''waifu.im sfw'' e \<in> set (wlog (world_after_1 L w))"
  "snd (fst (ingestWaifuIm L ''nsfw'' (world_after_1 L w))) = Some e
   \<Longrightarrow> AdapterFailed ''waifu.im nsfw'' e \<in> set (wlog (world_after_2 L w))"
  "snd (fst (ingestWaifuPics L waifuPicsManyURL ''sfw'' (world_after_2 L w))) = Some e
   \<Longrightarrow> AdapterFailed ''waifu.pics sfw'' e \<in> set (wlog (world_after_3 L w))"
  "snd (fst (ingestWaifuPics L waifuPicsNSFWURL ''nsfw'' (world_after_3 L w))) = Some e
   \<Longrightarrow> AdapterFailed ''waifu.pics nsfw'' e \<in> set (wlog (world_after_4 L w))"
  by (simp_all add: world_after_1_def world_after_2_def [of L w] world_after_3_def [of L w]
      world_after_4_def [of L w] log_failure_logged)

lemma adapter_error_zero:
  "snd (fst (ingestWaifuIm L cat w)) = Some e \<Longrightarrow> fst (fst (ingestWaifuIm L cat w)) = 0"
  "snd (fst (ingestWaifuPics L apiURL cat w)) = Some e
   \<Longrightarrow> fst (fst (ingestWaifuPics L apiURL cat w)) = 0"
  using ingest_via_error_zero [of L "''waifu.im''" cat "listing_im L cat (wnet w)" w]
    ingest_via_error_zero [of L "''waifu.pics''" cat "listing_pics L apiURL (wnet w)" w]
  by (simp_all add: ingestWaifuIm_via ingestWaifuPics_via)

lemma cycle_requests_sent:
  assumes "ctx_deadline n = None"
    and "valid_request n ''GET'' (waifuImURL ''sfw'')"
    and "valid_request n ''GET'' (waifuImURL ''nsfw'')"
    and "valid_request n ''POST'' waifuPicsManyURL"
    and "valid_request n ''POST'' waifuPicsNSFWURL"
  shows "Sent ''GET'' (waifuImURL ''sfw'') None \<in> set (trace (net_after_4 L n))"
    and "Sent ''GET'' (waifuImURL ''nsfw'') None \<in> set (trace (net_after_4 L n))"
    and "Sent ''POST'' waifuPicsManyURL (Some waifuPicsReqBody) \<in> set (trace (net_after_4 L n))"
    and "Sent ''POST'' waifuPicsNSFWURL (Some waifuPicsReqBody) \<in> set (trace (net_after_4 L n))"
proof -
  have 1: "extends n (net_after_1 L n)
           \<and> Sent ''GET'' (waifuImURL ''sfw'') None \<in> set (trace (net_after_1 L n))"
    unfolding net_after_1_def using assms by (intro via_net_sent listing_im_sent)
  then have c1: "ctx_deadline (net_after_1 L n) = None"
    "valid_request (net_after_1 L n) ''GET'' (waifuImURL ''nsfw'')"
    using assms by (simp_all add: extends_def)
  have 2: "extends (net_after_1 L n) (net_after_2 L n)
           \<and> Sent ''GET'' (waifuImURL ''nsfw'') None \<in> set (trace (net_after_2 L n))"
    unfolding net_after_2_def using c1 by (intro via_net_sent listing_im_sent)
  with 1 have e2: "extends n (net_after_2 L n)" by (auto intro: extends_trans)
  then have c2: "ctx_deadline (net_after_2 L n) = None"
    "valid_request (net_after_2 L n) ''POST'' waifuPicsManyURL"
    using assms by (simp_all add: extends_def)
  have 3: "extends (net_after_2 L n) (net_after_3 L n)
           \<and> Sent ''POST'' waifuPicsManyURL (Some waifuPicsReqBody) \<in> set (trace (net_after_3 L n))"
    unfolding net_after_3_def using c2 by (intro via_net_sent listing_pics_sent)
  with e2 have e3: "extends n (net_after_3 L n)" by (auto intro: extends_trans)
  then have c3: "ctx_deadline (net_after_3 L n) = None"
    "valid_request (net_after_3 L n) ''POST'' waifuPicsNSFWURL"
    using assms by (simp_all add: extends_def)
  have 4: "extends (net_after_3 L n) (net_after_4 L n)
           \<and> Sent ''POST'' waifuPicsNSFWURL (Some waifuPicsReqBody) \<in> set (trace (net_after_4 L n))"
    unfolding net_after_4_def using c3 by (intro via_net_sent listing_pics_sent)
  from 1 2 3 4 show "Sent ''GET'' (waifuImURL ''sfw'') None \<in> set (trace (net_after_4 L n))"
    and "Sent ''GET'' (waifuImURL ''nsfw'') None \<in> set (trace (net_after_4 L n))"
    and "Sent ''POST'' waifuPicsManyURL (Some waifuPicsReqBody) \<in> set (trace (net_after_4 L n))"
    and "Sent ''POST'' waifuPicsNSFWURL (Some waifuPicsReqBody) \<in> set (trace (net_after_4 L n))"
    by (auto simp: extends_def)
qed

text \<open>
  C8.  A cycle never returns an error.  Its count is the sum of the counts of the four
  adapter invocations, each started in the world the previous one left, whether that one
  failed or not, and it is the number of rows the cycle added to the catalog.  An adapter
  invocation that fails contributes 0 and its error is in the log at the end of the cycle.
  When the context is not cancelled and the four list requests can be built, all four are
  sent, whatever the upstreams answer.
\<close>

theorem C8_cycle_contains_failures:
  "snd (fst (Run L w)) = None \<and>
   fst (fst (Run L w)) =
     fst (fst (ingestWaifuIm L ''sfw'' w))
     + fst (fst (ingestWaifuIm L ''nsfw'' (world_after_1 L w)))
     + fst (fst (ingestWaifuPics L waifuPicsManyURL ''sfw'' (world_after_2 L w)))
     + fst (fst (ingestWaifuPics L waifuPicsNSFWURL ''nsfw'' (world_after_3 L w))) \<and>
   length (rows (wstore (snd (Run L w)))) = length (rows (wstore w)) + fst (fst (Run L w)) \<and>
   (snd (fst (ingestWaifuIm L ''sfw'' w)) = Some e1
      \<longrightarrow> fst (fst (ingestWaifuIm L ''sfw'' w)) = 0
          \<and> AdapterFailed ''waifu.im sfw'' e1 \<in> set (wlog (snd (Run L w)))) \<and>
   (snd (fst (ingestWaifuIm L ''nsfw'' (world_after_1 L w))) = Some e2
      \<longrightarrow> fst (fst (ingestWaifuIm L ''nsfw'' (world_after_1 L w))) = 0
          \<and> AdapterFailed ''waifu.im nsfw'' e2 \<in> set (wlog (snd (Run L w)))) \<and>
   (snd (fst (ingestWaifuPics L waifuPicsManyURL ''sfw'' (world_after_2 L w))) = Some e3
      \<longrightarrow> fst (fst (ingestWaifuPics L waifuPicsManyURL ''sfw'' (world_after_2 L w))) = 0
          \<and> AdapterFailed ''waifu.pics sfw'' e3 \<in> set (wlog (snd (Run L w)))) \<and>
   (snd (fst (ingestWaifuPics L waifuPicsNSFWURL ''nsfw'' (world_after_3 L w))) = Some e4
      \<longrightarrow> fst (fst (ingestWaifuPics L waifuPicsNSFWURL ''nsfw'' (world_after_3 L w))) = 0
          \<and> AdapterFailed ''waifu.pics nsfw'' e4 \<in> set (wlog (snd (Run L w)))) \<and>
   (ctx_deadline (wnet w) = None
      \<and> valid_request (wnet w) ''GET'' (waifuImURL ''sfw'')
      \<and> valid_request (wnet w) ''GET'' (waifuImURL ''nsfw'')
      \<and> valid_request (wnet w) ''POST'' waifuPicsManyURL
      \<and> valid_request (wnet w) ''POST'' waifuPicsNSFWURL
      \<longrightarrow> Sent ''GET'' (waifuImURL ''sfw'') None \<in> set (trace (wnet (snd (Run L w))))
          \<and> Sent ''GET'' (waifuImURL ''nsfw'') None \<in> set (trace (wnet (snd (Run L w))))
          \<and> Sent ''POST'' waifuPicsManyURL (Some waifuPicsReqBody)
              \<in> set (trace (wnet (snd (Run L w))))
          \<and> Sent ''POST'' waifuPicsNSFWURL (Some waifuPicsReqBody)
              \<in> set (trace (wnet (snd (Run L w)))))"
proof -
  have r: "snd (Run L w) = world_after_4 L w" by (simp add: Run_eq)
  have count: "length (rows (wstore (snd (Run L w)))) = length (rows (wstore w)) + fst (fst (Run L w))"
    by (simp add: Run_eq world_after_rows)
  have l1: "snd (fst (ingestWaifuIm L ''sfw'' w)) = Some e1
      \<longrightarrow> AdapterFailed ''waifu.im sfw'' e1 \<in> set (wlog (snd (Run L w)))"
    using adapter_failure_logged(1) [of L w e1] world_after_log(2,3,4) [of L w] unfolding r by blast
  have l2: "snd (fst (ingestWaifuIm L ''nsfw'' (world_after_1 L w))) = Some e2
      \<longrightarrow> AdapterFailed ''waifu.im nsfw'' e2 \<in> set (wlog (snd (Run L w)))"
    using adapter_failure_logged(2) [of L w e2] world_after_log(3,4) [of L w] unfolding r by blast
  have l3: "snd (fst (ingestWaifuPics L waifuPicsManyURL ''sfw'' (world_after_2 L w))) = Some e3
      \<longrightarrow> AdapterFailed ''waifu.pics sfw'' e3 \<in> set (wlog (snd (Run L w)))"
    using adapter_failure_logged(3) [of L w e3] world_after_log(4) [of L w] unfolding r by blast
  have l4: "snd (fst (ingestWaifuPics L waifuPicsNSFWURL ''nsfw'' (world_after_3 L w))) = Some e4
      \<longrightarrow> AdapterFailed ''waifu.pics nsfw'' e4 \<in> set (wlog (snd (Run L w)))"
    using adapter_failure_logged(4) [of L w e4] unfolding r by blast
  have sent: "ctx_deadline (wnet w) = None
      \<and> valid_request (wnet w) ''GET'' (waifuImURL ''sfw'')
      \<and> valid_request (wnet w) ''GET'' (waifuImURL ''nsfw'')
      \<and> valid_request (wnet w) ''POST'' waifuPicsManyURL
      \<and> valid_request (wnet w) ''POST'' waifuPicsNSFWURL
      \<longrightarrow> Sent ''GET'' (waifuImURL ''sfw'') None \<in> set (trace (wnet (snd (Run L w))))
          \<and> Sent ''GET'' (waifuImURL ''nsfw'') None \<in> set (trace (wnet (snd (Run L w))))
          \<and> Sent ''POST'' waifuPicsManyURL (Some waifuPicsReqBody)
              \<in> set (trace (wnet (snd (Run L w))))
          \<and> Sent ''POST'' waifuPicsNSFWURL (Some waifuPicsReqBody)
              \<in> set (trace (wnet (snd (Run L w))))"
    unfolding r world_after_net using cycle_requests_sent [of "wnet w" L] by blast
  show ?thesis
    using count l1 l2 l3 l4 sent adapter_error_zero
    by (simp add: Run_eq)
qed

lemma extends_listing_im: "extends n (snd (listing_im L cat n))"
proof -
  obtain r n1 where w: "limiter_Wait WaifuImLimiter n = (r, n1)"
    by (cases "limiter_Wait WaifuImLimiter n")
  then have e1: "extends n n1" using extends_limiter_Wait [of n WaifuImLimiter] by simp
  let ?f = "fetchWithRetry ''GET'' (waifuImURL cat) None ''waifu.im'' WaifuImLimiter n1"
  have "extends n1 (snd ?f)" by (simp add: fetchWithRetry_def extends_fetchLoop)
  with e1 have e2: "extends n (snd ?f)" by (rule extends_trans)
  have "snd (listing_im L cat n) = n1 \<or> snd (listing_im L cat n) = snd ?f"
    by (auto simp: listing_im_def w split: prod.splits sum.splits option.splits)
  with e1 e2 show ?thesis by auto
qed

lemma extends_listing_pics: "extends n (snd (listing_pics L apiURL n))"
proof -
  obtain r n1 where w: "limiter_Wait WaifuPicsLimiter n = (r, n1)"
    by (cases "limiter_Wait WaifuPicsLimiter n")
  then have e1: "extends n n1" using extends_limiter_Wait [of n WaifuPicsLimiter] by simp
  let ?f = "fetchWithRetry ''POST'' apiURL (Some waifuPicsReqBody) ''waifu.pics'' WaifuPicsLimiter n1"
  have "extends n1 (snd ?f)" by (simp add: fetchWithRetry_def extends_fetchLoop)
  with e1 have e2: "extends n (snd ?f)" by (rule extends_trans)
  have "snd (listing_pics L apiURL n) = n1 \<or> snd (listing_pics L apiURL n) = snd ?f"
    by (auto simp: listing_pics_def w split: prod.splits sum.splits option.splits)
  with e1 e2 show ?thesis by auto
qed

lemma extends_net_after:
  "extends n (net_after_1 L n)" "extends n (net_after_2 L n)"
  "extends n (net_after_3 L n)" "extends n (net_after_4 L n)"
proof -
  show 1: "extends n (net_after_1 L n)"
    unfolding net_after_1_def by (intro extends_via_net extends_listing_im)
  have "extends (net_after_1 L n) (net_after_2 L n)"
    unfolding net_after_2_def by (intro extends_via_net extends_listing_im)
  with 1 show 2: "extends n (net_after_2 L n)" by (rule extends_trans)
  have "extends (net_after_2 L n) (net_after_3 L n)"
    unfolding net_after_3_def by (intro extends_via_net extends_listing_pics)
  with 2 show 3: "extends n (net_after_3 L n)" by (rule extends_trans)
  have "extends (net_after_3 L n) (net_after_4 L n)"
    unfolding net_after_4_def by (intro extends_via_net extends_listing_pics)
  with 3 show "extends n (net_after_4 L n)" by (rule extends_trans)
qed

text \<open>On an upstream that answers every request with status 500, every listing fails.\<close>

lemma failing_fetch:
  assumes "extends failing_net n"
  shows "fst (fetchWithRetry m u rb s l (snd (limiter_Wait l' n))) = Inl (AfterRetries 3 (Some (Returned s 500)))"
    and "fst (limiter_Wait l' n) = None"
proof -
  have f: "ctx_deadline failing_net = None" "valid_request failing_net = (\<lambda>m u. True)"
    "upstream failing_net = always (Response 500 [] None)"
    by (simp_all add: failing_net_def quiet_net_def)
  let ?n1 = "snd (limiter_Wait l' n)"
  from assms f have "extends failing_net ?n1"
    using extends_limiter_Wait [of n l'] by (auto intro: extends_trans)
  with f have "ctx_deadline ?n1 = None \<and> valid_request ?n1 m u
      \<and> (\<forall>k < 3. transient (upstream ?n1 (sent ?n1 + k)))"
    by (simp add: extends_def always_def)
  from fetchWithRetry_all_transient(1) [OF this, of rb s l] f \<open>extends failing_net ?n1\<close>
  show "fst (fetchWithRetry m u rb s l ?n1) = Inl (AfterRetries 3 (Some (Returned s 500)))"
    by (simp add: extends_def always_def)
  from assms f show "fst (limiter_Wait l' n) = None"
    by (simp add: limiter_Wait_granted extends_def)
qed

lemma failing_listing:
  assumes "extends failing_net n"
  shows "fst (listing_im L cat n) = Inl (AfterRetries 3 (Some (Returned ''waifu.im'' 500)))"
    and "fst (listing_pics L apiURL n) = Inl (AfterRetries 3 (Some (Returned ''waifu.pics'' 500)))"
  using failing_fetch(1) [OF assms, of "''GET''" "waifuImURL cat" None "''waifu.im''" WaifuImLimiter WaifuImLimiter]
    failing_fetch(1) [OF assms, of "''POST''" apiURL "Some waifuPicsReqBody" "''waifu.pics''" WaifuPicsLimiter WaifuPicsLimiter]
    failing_fetch(2) [OF assms, of WaifuImLimiter] failing_fetch(2) [OF assms, of WaifuPicsLimiter]
  by (auto simp: listing_im_def listing_pics_def split: prod.splits sum.splits option.splits)

lemma failing_adapter:
  assumes "extends failing_net (wnet w)"
  shows "ingestWaifuIm L cat w =
           ((0, Some (AfterRetries 3 (Some (Returned ''waifu.im'' 500)))),
            w\<lparr>wnet := snd (listing_im L cat (wnet w))\<rparr>)"
    and "ingestWaifuPics L apiURL cat w =
           ((0, Some (AfterRetries 3 (Some (Returned ''waifu.pics'' 500)))),
            w\<lparr>wnet := snd (listing_pics L apiURL (wnet w))\<rparr>)"
  using failing_listing [OF assms]
  by (simp_all add: ingestWaifuIm_via ingestWaifuPics_via ingest_via_failed)

theorem C8_cycle_contains_failures_witness:
  "snd (fst (Run toy_libs failing_world)) = None \<and>
   fst (fst (Run toy_libs failing_world)) = 0 + 0 + 0 + 0 \<and>
   length (rows (wstore (snd (Run toy_libs failing_world))))
     = length (rows (wstore failing_world)) + fst (fst (Run toy_libs failing_world)) \<and>
   snd (fst (ingestWaifuIm toy_libs ''sfw'' failing_world))
     = Some (AfterRetries 3 (Some (Returned ''waifu.im'' 500))) \<and>
   fst (fst (ingestWaifuIm toy_libs ''sfw'' failing_world)) = 0 \<and>
   AdapterFailed ''waifu.im sfw'' (AfterRetries 3 (Some (Returned ''waifu.im'' 500)))
     \<in> set (wlog (snd (Run toy_libs failing_world))) \<and>
   snd (fst (ingestWaifuIm toy_libs ''nsfw'' (world_after_1 toy_libs failing_world)))
     = Some (AfterRetries 3 (Some (Returned ''waifu.im'' 500))) \<and>
   fst (fst (ingestWaifuIm toy_libs ''nsfw'' (world_after_1 toy_libs failing_world))) = 0 \<and>
   AdapterFailed ''waifu.im nsfw'' (AfterRetries 3 (Some (Returned ''waifu.im'' 500)))
     \<in> set (wlog (snd (Run toy_libs failing_world))) \<and>
   snd (fst (ingestWaifuPics toy_libs waifuPicsManyURL ''sfw'' (world_after_2 toy_libs failing_world)))
     = Some (AfterRetries 3 (Some (Returned ''waifu.pics'' 500))) \<and>
   fst (fst (ingestWaifuPics toy_libs waifuPicsManyURL ''sfw'' (world_after_2 toy_libs failing_world))) = 0 \<and>
   AdapterFailed ''waifu.pics sfw'' (AfterRetries 3 (Some (Returned ''waifu.pics'' 500)))
     \<in> set (wlog (snd (Run toy_libs failing_world))) \<and>
   snd (fst (ingestWaifuPics toy_libs waifuPicsNSFWURL ''nsfw'' (world_after_3 toy_libs failing_world)))
     = Some (AfterRetries 3 (Some (Returned ''waifu.pics'' 500))) \<and>
   fst (fst (ingestWaifuPics toy_libs waifuPicsNSFWURL ''nsfw'' (world_after_3 toy_libs failing_world))) = 0 \<and>
   AdapterFailed ''waifu.pics nsfw'' (AfterRetries 3 (Some (Returned ''waifu.pics'' 500)))
     \<in> set (wlog (snd (Run toy_libs failing_world))) \<and>
   ctx_deadline (wnet failing_world) = None \<and>
   valid_request (wnet failing_world) ''GET'' (waifuImURL ''sfw'') \<and>
   valid_request (wnet failing_world) ''GET'' (waifuImURL ''nsfw'') \<and>
   valid_request (wnet failing_world) ''POST'' waifuPicsManyURL \<and>
   valid_request (wnet failing_world) ''POST'' waifuPicsNSFWURL \<and>
   Sent ''GET'' (waifuImURL ''sfw'') None \<in> set (trace (wnet (snd (Run toy_libs failing_world)))) \<and>
   Sent ''GET'' (waifuImURL ''nsfw'') None \<in> set (trace (wnet (snd (Run toy_libs failing_world)))) \<and>
   Sent ''POST'' waifuPicsManyURL (Some waifuPicsReqBody)
     \<in> set (trace (wnet (snd (Run toy_libs failing_world)))) \<and>
   Sent ''POST'' waifuPicsNSFWURL (Some waifuPicsReqBody)
     \<in> set (trace (wnet (snd (Run toy_libs failing_world))))"
proof -
  have n: "wnet failing_world = failing_net" by (simp add: failing_world_def)
  have e: "extends failing_net (wnet failing_world)"
    "extends failing_net (wnet (world_after_1 toy_libs failing_world))"
    "extends failing_net (wnet (world_after_2 toy_libs failing_world))"
    "extends failing_net (wnet (world_after_3 toy_libs failing_world))"
    by (simp_all add: world_after_net n extends_net_after)
  have v: "ctx_deadline (wnet failing_world) = None"
    "\<And>m u. valid_request (wnet failing_world) m u"
    by (simp_all add: n failing_net_def quiet_net_def)
  show ?thesis
    using C8_cycle_contains_failures [of toy_libs failing_world
        "AfterRetries 3 (Some (Returned ''waifu.im'' 500))"
        "AfterRetries 3 (Some (Returned ''waifu.im'' 500))"
        "AfterRetries 3 (Some (Returned ''waifu.pics'' 500))"
        "AfterRetries 3 (Some (Returned ''waifu.pics'' 500))"]
      v
    by (simp add: failing_adapter [OF e(1)] failing_adapter [OF e(2)] failing_adapter [OF e(3)]
        failing_adapter [OF e(4)])
qed

section \<open>Idempotence by content hash\<close>

lemma same_content_refl [simp]: "same_content s s"
  by (simp add: same_content_def)

lemma same_content_trans: "same_content a b \<Longrightarrow> same_content b c \<Longrightarrow> same_content a c"
  by (simp add: same_content_def)

lemma same_content_hashes: "same_content s s' \<Longrightarrow> hashes s' = hashes s"
  by (simp add: same_content_def hashes_def)

lemma same_content_frame [simp]:
  "same_content s (s\<lparr>db_ops := a\<rparr>)" "same_content s (s\<lparr>disk_ops := b\<rparr>)"
  "same_content s (s\<lparr>db_ops := a, disk_ops := b\<rparr>)"
  by (simp_all add: same_content_def)

lemma no_faults_frame [simp]:
  "no_faults (s\<lparr>db_ops := a\<rparr>) = no_faults s"
  "no_faults (s\<lparr>disk_ops := b\<rparr>) = no_faults s"
  "no_faults (s\<lparr>files := c\<rparr>) = no_faults s"
  "no_faults (s\<lparr>rows := d\<rparr>) = no_faults s"
  "no_faults (s\<lparr>last_id := e\<rparr>) = no_faults s"
  by (simp_all add: no_faults_def)

lemma hashes_rows [simp]: "hashes (s\<lparr>rows := rows s @ [r]\<rparr>) = insert (Hash r) (hashes s)"
  by (auto simp: hashes_def)

text \<open>A store that does not fail ends up holding the hash of whatever is downloaded.\<close>

lemma storeImage_no_faults:
  assumes "no_faults s"
  shows "no_faults (snd (storeImage L url src cat ow oh data s))
         \<and> hashes (snd (storeImage L url src cat ow oh data s)) = insert (contentHash L data) (hashes s)"
proof (cases "contentHash L data \<in> hashes s")
  case True
  with assms show ?thesis by (auto simp: storeImage_known no_faults_def)
next
  case False
  with assms have "\<not> db_fault s (db_ops s)" "\<not> disk_fault s (disk_ops s)"
    "\<not> db_fault s (Suc (db_ops s))"
    by (simp_all add: no_faults_def)
  with False assms show ?thesis by (simp add: storeImage_stored hashes_def)
qed

text \<open>Content whose hash is in the catalog is never stored again.\<close>

lemma storeImage_present:
  assumes "contentHash L data \<in> hashes s"
  shows "fst (fst (storeImage L url src cat ow oh data s)) = 0
         \<and> same_content s (snd (storeImage L url src cat ow oh data s))"
proof (cases "db_fault s (db_ops s)")
  case True
  then show ?thesis by (simp add: storeImage_query_fault)
next
  case False
  with assms show ?thesis by (simp add: storeImage_known)
qed

lemma payloads_step:
  "fst (payloads ((url, ow, oh) # items) n) =
     (case fst (acquire_and_download url n) of
        Inl e \<Rightarrow> fst (payloads items (snd (acquire_and_download url n)))
      | Inr data \<Rightarrow> data # fst (payloads items (snd (acquire_and_download url n))))"
  by (simp split: prod.splits sum.splits)

lemma processAll_no_faults:
  "no_faults (wstore w)
   \<Longrightarrow> no_faults (wstore (snd (processAll L src cat items c w)))
       \<and> hashes (wstore (snd (processAll L src cat items c w)))
           = hashes (wstore w) \<union> contentHash L ` set (fst (payloads items (wnet w)))"
proof (induction items arbitrary: c w)
  case Nil
  then show ?case by simp
next
  case (Cons item items)
  obtain url ow oh where i: "item = (url, ow, oh)" by (cases item)
  let ?p = "processImage L url src cat ow oh w"
  let ?d = "acquire_and_download url (wnet w)"
  have net: "wnet (snd ?p) = snd ?d" by (rule processImage_net)
  have st: "no_faults (wstore (snd ?p))
            \<and> hashes (wstore (snd ?p)) =
                (case fst ?d of Inl e \<Rightarrow> hashes (wstore w)
                 | Inr data \<Rightarrow> insert (contentHash L data) (hashes (wstore w)))"
    using Cons.prems storeImage_no_faults [of "wstore w" L url src cat ow oh]
    by (simp add: processImage_wstore split: sum.splits)
  show ?case
  proof (cases "snd (fst ?p)")
    case None
    with Cons.IH [where w = "snd ?p" and c = "c + fst (fst ?p)"] st net show ?thesis
      unfolding i processAll_step payloads_step by (auto split: sum.splits)
  next
    case (Some e)
    with Cons.IH [where w = "log_Printf (ProcessFailed url e) (snd ?p)" and c = c] st net show ?thesis
      unfolding i processAll_step payloads_step by (auto split: sum.splits)
  qed
qed

lemma processAll_present:
  "contentHash L ` set (fst (payloads items (wnet w))) \<subseteq> hashes (wstore w)
   \<Longrightarrow> fst (processAll L src cat items c w) = c
       \<and> same_content (wstore w) (wstore (snd (processAll L src cat items c w)))"
proof (induction items arbitrary: c w)
  case Nil
  then show ?case by simp
next
  case (Cons item items)
  obtain url ow oh where i: "item = (url, ow, oh)" by (cases item)
  let ?p = "processImage L url src cat ow oh w"
  let ?d = "acquire_and_download url (wnet w)"
  have net: "wnet (snd ?p) = snd ?d" by (rule processImage_net)
  have st: "fst (fst ?p) = 0 \<and> same_content (wstore w) (wstore (snd ?p))"
  proof (cases "fst ?d")
    case (Inl e)
    then show ?thesis by (simp add: processImage_result processImage_wstore)
  next
    case (Inr data)
    with Cons.prems have "contentHash L data \<in> hashes (wstore w)"
      unfolding i payloads_step by simp
    with Inr storeImage_present [of L data "wstore w" url src cat ow oh] show ?thesis
      by (simp add: processImage_result processImage_wstore)
  qed
  then have h: "hashes (wstore (snd ?p)) = hashes (wstore w)" by (simp add: same_content_hashes)
  have rest: "contentHash L ` set (fst (payloads items (snd ?d))) \<subseteq> hashes (wstore w)"
    using Cons.prems unfolding i payloads_step by (auto split: sum.splits)
  show ?case
  proof (cases "snd (fst ?p)")
    case None
    with Cons.IH [where w = "snd ?p" and c = "c + fst (fst ?p)"] st net h rest show ?thesis
      unfolding i processAll_step by (auto intro: same_content_trans)
  next
    case (Some e)
    with Cons.IH [where w = "log_Printf (ProcessFailed url e) (snd ?p)" and c = c] st net h rest show ?thesis
      unfolding i processAll_step by (auto intro: same_content_trans)
  qed
qed

lemma ingest_via_no_faults:
  assumes "no_faults (wstore w)"
  shows "no_faults (wstore (snd (ingest_via L src cat lst w)))
         \<and> hashes (wstore (snd (ingest_via L src cat lst w)))
             = hashes (wstore w) \<union> contentHash L ` set (via_payloads lst)"
proof (cases "fst lst")
  case (Inl e)
  with assms show ?thesis by (cases lst) (simp add: ingest_via_failed via_payloads_def)
next
  case (Inr items)
  with assms processAll_no_faults [of "w\<lparr>wnet := snd lst\<rparr>" L src cat items 0] show ?thesis
    by (cases lst) (simp add: ingest_via_listed via_payloads_def)
qed

lemma ingest_via_present:
  assumes "contentHash L ` set (via_payloads lst) \<subseteq> hashes (wstore w)"
  shows "fst (fst (ingest_via L src cat lst w)) = 0
         \<and> same_content (wstore w) (wstore (snd (ingest_via L src cat lst w)))"
proof (cases "fst lst")
  case (Inl e)
  then show ?thesis by (simp add: ingest_via_failed)
next
  case (Inr items)
  with assms processAll_present [of L items "w\<lparr>wnet := snd lst\<rparr>" src cat 0] show ?thesis
    by (cases lst) (simp add: ingest_via_listed via_payloads_def)
qed

lemma world_after_no_faults:
  assumes "no_faults (wstore w)"
  shows "no_faults (wstore (world_after_4 L w))
         \<and> hashes (wstore (world_after_4 L w))
             = hashes (wstore w) \<union> contentHash L ` set (cycle_payloads L (wnet w))"
proof -
  have 1: "no_faults (wstore (world_after_1 L w))
           \<and> hashes (wstore (world_after_1 L w))
               = hashes (wstore w) \<union> contentHash L ` set (via_payloads (listing_im L ''sfw'' (wnet w)))"
    using ingest_via_no_faults [OF assms, of L "''waifu.im''" "''sfw''" "listing_im L ''sfw'' (wnet w)"]
    by (simp add: world_after_1_def ingestWaifuIm_via)
  then have 2: "no_faults (wstore (world_after_2 L w))
           \<and> hashes (wstore (world_after_2 L w))
               = hashes (wstore (world_after_1 L w))
                 \<union> contentHash L ` set (via_payloads (listing_im L ''nsfw'' (net_after_1 L (wnet w))))"
    using ingest_via_no_faults [of "world_after_1 L w" L "''waifu.im''" "''nsfw''"
        "listing_im L ''nsfw'' (wnet (world_after_1 L w))"]
    by (simp add: world_after_2_def ingestWaifuIm_via world_after_net)
  then have 3: "no_faults (wstore (world_after_3 L w))
           \<and> hashes (wstore (world_after_3 L w))
               = hashes (wstore (world_after_2 L w))
                 \<union> contentHash L ` set (via_payloads (listing_pics L waifuPicsManyURL (net_after_2 L (wnet w))))"
    using ingest_via_no_faults [of "world_after_2 L w" L "''waifu.pics''" "''sfw''"
        "listing_pics L waifuPicsManyURL (wnet (world_after_2 L w))"]
    by (simp add: world_after_3_def ingestWaifuPics_via world_after_net)
  then have 4: "no_faults (wstore (world_after_4 L w))
           \<and> hashes (wstore (world_after_4 L w))
               = hashes (wstore (world_after_3 L w))
                 \<union> contentHash L ` set (via_payloads (listing_pics L waifuPicsNSFWURL (net_after_3 L (wnet w))))"
    using ingest_via_no_faults [of "world_after_3 L w" L "''waifu.pics''" "''nsfw''"
        "listing_pics L waifuPicsNSFWURL (wnet (world_after_3 L w))"]
    by (simp add: world_after_4_def ingestWaifuPics_via world_after_net)
  from 1 2 3 4 show ?thesis
    by (simp add: cycle_payloads_def image_Un Un_assoc)
qed

lemma world_after_present:
  assumes "contentHash L ` set (cycle_payloads L (wnet w)) \<subseteq> hashes (wstore w)"
  shows "fst (fst (ingestWaifuIm L ''sfw'' w)) = 0"
    and "fst (fst (ingestWaifuIm L ''nsfw'' (world_after_1 L w))) = 0"
    and "fst (fst (ingestWaifuPics L waifuPicsManyURL ''sfw'' (world_after_2 L w))) = 0"
    and "fst (fst (ingestWaifuPics L waifuPicsNSFWURL ''nsfw'' (world_after_3 L w))) = 0"
    and "same_content (wstore w) (wstore (world_after_4 L w))"
proof -
  from assms have p:
    "contentHash L ` set (via_payloads (listing_im L ''sfw'' (wnet w))) \<subseteq> hashes (wstore w)"
    "contentHash L ` set (via_payloads (listing_im L ''nsfw'' (net_after_1 L (wnet w)))) \<subseteq> hashes (wstore w)"
    "contentHash L ` set (via_payloads (listing_pics L waifuPicsManyURL (net_after_2 L (wnet w)))) \<subseteq> hashes (wstore w)"
    "contentHash L ` set (via_payloads (listing_pics L waifuPicsNSFWURL (net_after_3 L (wnet w)))) \<subseteq> hashes (wstore w)"
    by (auto simp: cycle_payloads_def)
  have 1: "fst (fst (ingestWaifuIm L ''sfw'' w)) = 0 \<and> same_content (wstore w) (wstore (world_after_1 L w))"
    using ingest_via_present [OF p(1), of "''waifu.im''" "''sfw''"]
    by (simp add: world_after_1_def ingestWaifuIm_via)
  then have h1: "hashes (wstore (world_after_1 L w)) = hashes (wstore w)"
    by (simp add: same_content_hashes)
  have 2: "fst (fst (ingestWaifuIm L ''nsfw'' (world_after_1 L w))) = 0
           \<and> same_content (wstore (world_after_1 L w)) (wstore (world_after_2 L w))"
    using ingest_via_present [of L "listing_im L ''nsfw'' (wnet (world_after_1 L w))"
        "world_after_1 L w" "''waifu.im''" "''nsfw''"] p(2) h1
    by (simp add: world_after_2_def ingestWaifuIm_via world_after_net)
  with 1 have c2: "same_content (wstore w) (wstore (world_after_2 L w))"
    by (auto intro: same_content_trans)
  then have h2: "hashes (wstore (world_after_2 L w)) = hashes (wstore w)"
    by (simp add: same_content_hashes)
  have 3: "fst (fst (ingestWaifuPics L waifuPicsManyURL ''sfw'' (world_after_2 L w))) = 0
           \<and> same_content (wstore (world_after_2 L w)) (wstore (world_after_3 L w))"
    using ingest_via_present [of L "listing_pics L waifuPicsManyURL (wnet (world_after_2 L w))"
        "world_after_2 L w" "''waifu.pics''" "''sfw''"] p(3) h2
    by (simp add: world_after_3_def ingestWaifuPics_via world_after_net)
  with c2 have c3: "same_content (wstore w) (wstore (world_after_3 L w))"
    by (auto intro: same_content_trans)
  then have h3: "hashes (wstore (world_after_3 L w)) = hashes (wstore w)"
    by (simp add: same_content_hashes)
  have 4: "fst (fst (ingestWaifuPics L waifuPicsNSFWURL ''nsfw'' (world_after_3 L w))) = 0
           \<and> same_content (wstore (world_after_3 L w)) (wstore (world_after_4 L w))"
    using ingest_via_present [of L "listing_pics L waifuPicsNSFWURL (wnet (world_after_3 L w))"
        "world_after_3 L w" "''waifu.pics''" "''nsfw''"] p(4) h3
    by (simp add: world_after_4_def ingestWaifuPics_via world_after_net)
  with c3 show "same_content (wstore w) (wstore (world_after_4 L w))"
    by (auto intro: same_content_trans)
  from 1 2 3 4 show "fst (fst (ingestWaifuIm L ''sfw'' w)) = 0"
    and "fst (fst (ingestWaifuIm L ''nsfw'' (world_after_1 L w))) = 0"
    and "fst (fst (ingestWaifuPics L waifuPicsManyURL ''sfw'' (world_after_2 L w))) = 0"
    and "fst (fst (ingestWaifuPics L waifuPicsNSFWURL ''nsfw'' (world_after_3 L w))) = 0"
    by simp_all
qed

lemma Run_twice:
  assumes "no_faults (wstore w1)" "wnet w2 = wnet w1"
    and "same_content (wstore (snd (Run L w1))) (wstore w2)"
  shows "fst (Run L w2) = (0, None)" and "same_content (wstore w2) (wstore (snd (Run L w2)))"
proof -
  have "hashes (wstore (snd (Run L w1)))
          = hashes (wstore w1) \<union> contentHash L ` set (cycle_payloads L (wnet w1))"
    using world_after_no_faults [OF assms(1), of L] by (simp add: Run_eq)
  with assms have p: "contentHash L ` set (cycle_payloads L (wnet w2)) \<subseteq> hashes (wstore w2)"
    by (auto simp: same_content_hashes)
  from world_after_present [OF p] show "fst (Run L w2) = (0, None)"
    and "same_content (wstore w2) (wstore (snd (Run L w2)))"
    by (simp_all add: Run_eq)
qed

lemma Insert_present:
  assumes "Hash img \<in> hashes s" "\<not> db_fault s (db_ops s)"
  shows "fst (Insert img s) = Inr (last_id s)" and "same_content s (snd (Insert img s))"
  using assms by (simp_all add: Insert_eq)

lemma Insert_distinct:
  assumes "distinct (map Hash (rows s))"
  shows "distinct (map Hash (rows (snd (Insert img s))))"
  using assms by (auto simp: Insert_eq hashes_def)

text \<open>
  C6.  (1) A candidate whose downloaded bytes hash to a value that the catalog holds
  (the lookup itself not failing) makes \<open>processImage\<close> return 0 and no error, and leaves
  files and catalog as they were.  (2) \<open>Insert\<close> of a row whose hash is present (the
  statement itself not failing) returns no error and leaves files and catalog as they
  were, and \<open>Insert\<close> never makes two rows share a hash.  (3) After a cycle over a store
  that does not fail, a second cycle against the same network environment, started on
  the files and catalog that the first one left, returns 0 and no error and leaves files
  and catalog as they were.
\<close>

theorem C6_idempotent_by_content_hash:
  "(fst (acquire_and_download url (wnet w)) = Inr data
      \<and> contentHash L data \<in> hashes (wstore w) \<and> \<not> db_fault (wstore w) (db_ops (wstore w))
    \<longrightarrow> fst (processImage L url src cat ow oh w) = (0, None)
        \<and> same_content (wstore w) (wstore (snd (processImage L url src cat ow oh w)))) \<and>
   (Hash img \<in> hashes s \<and> \<not> db_fault s (db_ops s)
    \<longrightarrow> \<not> isl (fst (Insert img s)) \<and> same_content s (snd (Insert img s))) \<and>
   (distinct (map Hash (rows s)) \<longrightarrow> distinct (map Hash (rows (snd (Insert img s))))) \<and>
   (no_faults (wstore w1) \<and> wnet w2 = wnet w1
      \<and> same_content (wstore (snd (Run L w1))) (wstore w2)
    \<longrightarrow> fst (Run L w2) = (0, None) \<and> same_content (wstore w2) (wstore (snd (Run L w2))))"
proof (intro conjI impI)
  assume a: "fst (acquire_and_download url (wnet w)) = Inr data
      \<and> contentHash L data \<in> hashes (wstore w) \<and> \<not> db_fault (wstore w) (db_ops (wstore w))"
  then show "fst (processImage L url src cat ow oh w) = (0, None)"
    and "same_content (wstore w) (wstore (snd (processImage L url src cat ow oh w)))"
    by (simp_all add: processImage_result processImage_wstore storeImage_known)
next
  assume "Hash img \<in> hashes s \<and> \<not> db_fault s (db_ops s)"
  then show "\<not> isl (fst (Insert img s))" and "same_content s (snd (Insert img s))"
    using Insert_present [of img s] by simp_all
next
  assume "distinct (map Hash (rows s))"
  then show "distinct (map Hash (rows (snd (Insert img s))))" by (rule Insert_distinct)
next
  assume a: "no_faults (wstore w1) \<and> wnet w2 = wnet w1
      \<and> same_content (wstore (snd (Run L w1))) (wstore w2)"
  then show "fst (Run L w2) = (0, None)"
    and "same_content (wstore w2) (wstore (snd (Run L w2)))"
    using Run_twice [of w1 w2 L] by simp_all
qed

lemmas run_eval =
  Run_def ingestWaifuIm_def ingestWaifuPics_def processAll.simps log_failure_def log_Printf_def
  waifuImSearchURL_def waifuPicsManyURL_def waifuPicsNSFWURL_def waifuPicsReqBody_def
  fallback_world_def

lemma first_cycle_stores_one: "fst (Run toy_libs fallback_world) = (1, None)"
  by (simp add: run_eval store_eval net_eval)

theorem C6_idempotent_witness:
  "fst (acquire_and_download ''u'' (wnet seen_world)) = Inr [9] \<and>
   contentHash toy_libs [9] \<in> hashes (wstore seen_world) \<and>
   \<not> db_fault (wstore seen_world) (db_ops (wstore seen_world)) \<and>
   fst (processImage toy_libs ''u'' ''waifu.pics'' ''sfw'' 0 0 seen_world) = (0, None) \<and>
   same_content (wstore seen_world)
     (wstore (snd (processImage toy_libs ''u'' ''waifu.pics'' ''sfw'' 0 0 seen_world))) \<and>
   Hash seen_row \<in> hashes (wstore seen_world) \<and>
   \<not> isl (fst (Insert seen_row (wstore seen_world))) \<and>
   same_content (wstore seen_world) (snd (Insert seen_row (wstore seen_world))) \<and>
   distinct (map Hash (rows (wstore seen_world))) \<and>
   distinct (map Hash (rows (snd (Insert seen_row (wstore seen_world))))) \<and>
   no_faults (wstore fallback_world) \<and>
   wnet rerun_world = wnet fallback_world \<and>
   same_content (wstore (snd (Run toy_libs fallback_world))) (wstore rerun_world) \<and>
   fst (Run toy_libs fallback_world) = (1, None) \<and>
   fst (Run toy_libs rerun_world) = (0, None) \<and>
   same_content (wstore rerun_world) (wstore (snd (Run toy_libs rerun_world)))"
proof -
  have d: "fst (acquire_and_download ''u'' (wnet seen_world)) = Inr [9]"
    by (simp add: seen_world_def fallback_download)
  have s: "hashes (wstore seen_world) = {''09''}" "Hash seen_row = ''09''"
    "\<And>k. \<not> db_fault (wstore seen_world) k" "rows (wstore seen_world) = [seen_row]"
    by (simp_all add: seen_world_def seen_row_def empty_store_def hashes_def)
  have f: "no_faults (wstore fallback_world)"
    by (simp add: fallback_world_def fresh_world_def empty_store_def no_faults_def)
  have r: "wnet rerun_world = wnet fallback_world"
    "same_content (wstore (snd (Run toy_libs fallback_world))) (wstore rerun_world)"
    by (simp_all add: rerun_world_def)
  show ?thesis
    using C6_idempotent_by_content_hash
      [of "''u''" seen_world "[9]" toy_libs "''waifu.pics''" "''sfw''" 0 0 seen_row
        "wstore seen_world" fallback_world rerun_world]
      d s f r first_cycle_stores_one
    by (simp add: fallback_hash)
qed

section \<open>Accuracy of the float64 model\<close>











section \<open>The resize law\<close>













end
